theory Spec2Isabelle
  imports Complex_Main
begin

section \<open>Spectral divide and conquer: the data model\<close>

text \<open>
  The development embeds \<^verbatim>\<open>include/elemental/lapack-like/Schur/SDC.hpp\<close>.
  \<^item> \<^verbatim>\<open>Matrix<F>\<close> is a record: its height, its width and its entries by position.
    \<^verbatim>\<open>A.Get(i,j)\<close> is only ever read at positions inside a square matrix.
  \<^item> \<^verbatim>\<open>Int\<close> is a signed machine integer. Heights and loop counters that
    start at 0 and count up are naturals, the values that can be negative
    (\<^verbatim>\<open>part.index\<close>, \<^verbatim>\<open>cutoff\<close>, \<^verbatim>\<open>maxIts\<close>) are integers.
  \<^item> \<^verbatim>\<open>Real\<close> (a floating-point type in the source) is idealised as the real
    numbers: sums are exact and there is no rounding. The one operation of the file
    that can leave the real numbers is the division \<^verbatim>\<open>part.value /= oneA\<close>; a value
    that was divided by zero is \<open>NotFinite\<close> (an infinity or a NaN), and no such
    value is \<^verbatim>\<open><=\<close> a tolerance.
  \<^item> \<^verbatim>\<open>Abs\<close> of a field element is its norm (absolute value of a real, modulus of
    a complex number).
  \<^item> Undefined behaviour of the source is an error value: reading or writing a
    \<^verbatim>\<open>std::vector\<close> outside its bounds, and leaving a function that returns a
    value through \<^verbatim>\<open>return;\<close>.
\<close>

record 'f Matrix =
  Height :: nat
  Width :: nat
  Entry :: "nat \<Rightarrow> nat \<Rightarrow> 'f"

definition Get :: "'f Matrix \<Rightarrow> nat \<Rightarrow> nat \<Rightarrow> 'f" where
  "Get A i j = Entry A i j"

definition Abs :: "'f::real_normed_vector \<Rightarrow> real" where
  "Abs x = norm x"

text \<open>\<^verbatim>\<open>ValueInt<Real>\<close>: a value and an index.\<close>

datatype RealValue = Finite real | NotFinite

record ValueInt =
  "value" :: RealValue
  index :: int

text \<open>\<^verbatim>\<open>x /= d\<close> and \<^verbatim>\<open>x <= t\<close> on a value, the divisor and the bound being real.\<close>

fun DivideBy :: "RealValue \<Rightarrow> real \<Rightarrow> RealValue" where
  "DivideBy (Finite x) d = (if d = 0 then NotFinite else Finite (x / d))"
| "DivideBy NotFinite d = NotFinite"

fun AtMost :: "RealValue \<Rightarrow> real \<Rightarrow> bool" where
  "AtMost (Finite x) t = (x \<le> t)"
| "AtMost NotFinite t = False"

datatype error =
  NoReturnValue
  | IndexOutOfRange
  | UninitializedResult
  | BadPartitionIndex
  | OutOfFuel

section \<open>ComputePartition\<close>

subsection \<open>The sequential overload (lines 36--79)\<close>

text \<open>
  Lines 55--57: \<^verbatim>\<open>for j in [0,n-1): for i in [j+1,n): colSums[j] += Abs(A.Get(i,j))\<close>.
\<close>

definition ColumnSums :: "('f::real_normed_vector) Matrix \<Rightarrow> nat \<Rightarrow> real list \<Rightarrow> real list" where
  "ColumnSums A n colSums =
     fold (\<lambda>j cs. fold (\<lambda>i cs. cs[j := cs ! j + Abs (Get A i j)]) [j + 1..<n] cs)
       [0..<n - 1] colSums"

text \<open>
  Lines 58--60: \<^verbatim>\<open>for i in [1,n-1): for j in [0,i): rowSums[i-1] += Abs(A.Get(i,j))\<close>.
\<close>

definition RowSums :: "('f::real_normed_vector) Matrix \<Rightarrow> nat \<Rightarrow> real list \<Rightarrow> real list" where
  "RowSums A n rowSums =
     fold (\<lambda>i rs. fold (\<lambda>j rs. rs[i - 1 := rs ! (i - 1) + Abs (Get A i j)]) [0..<i] rs)
       [1..<n - 1] rowSums"

text \<open>
  Lines 62--78 (and, word for word, lines 130--147 of the distributed overload): the
  list of norms and its minimum. One pass of the loop body is \<open>NormStep\<close>; the loop
  state is the vector \<^verbatim>\<open>norms\<close> and the running minimum, \<^verbatim>\<open>part.value\<close> and
  \<^verbatim>\<open>part.index\<close>. Inside \<^verbatim>\<open>ComputePartition\<close> the value is a sum of real numbers.
  \<^verbatim>\<open>norms[0] = colSums[0]\<close> is the one access that can leave the vectors: both have
  \<open>n - 1\<close> elements, none when \<open>n = 1\<close>.
\<close>

definition NormStep ::
  "real list \<Rightarrow> real list \<Rightarrow> nat \<Rightarrow> real list \<times> real \<times> int \<Rightarrow> real list \<times> real \<times> int" where
  "NormStep colSums rowSums j st =
     (let norms = (fst st)[j := fst st ! (j - 1) + colSums ! j - rowSums ! (j - 1)];
          part = snd st
      in if norms ! j < fst part
         then (norms, (norms ! j, int j + 1))
         else (norms, part))"

definition NormScan :: "real list \<Rightarrow> real list \<Rightarrow> nat \<Rightarrow> error + real list \<times> real \<times> int" where
  "NormScan colSums rowSums n =
     (let norms = replicate (n - 1) 0
      in if 0 < length norms \<and> 0 < length colSums
         then let norms = norms[0 := colSums ! 0];
                  part = (norms ! 0, 1)
              in Inr (fold (NormStep colSums rowSums) [1..<n - 1] (norms, part))
         else Inl IndexOutOfRange)"

definition Partition :: "real list \<times> real \<times> int \<Rightarrow> ValueInt" where
  "Partition st = \<lparr>value = Finite (fst (snd st)), index = snd (snd st)\<rparr>"

text \<open>
  Lines 44--51: for \<open>n = 0\<close> the sequential overload fills in the sentinel and then
  leaves through \<^verbatim>\<open>return;\<close>, so no value reaches the caller.
\<close>

definition ComputePartition :: "('f::real_normed_vector) Matrix \<Rightarrow> error + ValueInt" where
  "ComputePartition A =
     (let n = Height A
      in if n = 0 then Inl NoReturnValue
         else let colSums = ColumnSums A n (replicate (n - 1) 0);
                  rowSums = RowSums A n (replicate (n - 1) 0)
              in map_sum id Partition (NormScan colSums rowSums n))"

subsection \<open>The distributed overload (lines 85--148)\<close>

text \<open>
  \<^verbatim>\<open>DistMatrix<F>\<close> is not among the sources; the overload reads it through
  \<^verbatim>\<open>LocalHeight\<close>, \<^verbatim>\<open>LocalWidth\<close>, the shifts and the strides, with the global
  position of a local entry being \<^verbatim>\<open>colShift + iLoc*colStride\<close>,
  \<^verbatim>\<open>rowShift + jLoc*rowStride\<close>. The model is the global matrix over an
  \<open>r \<times> c\<close> process grid; a process is named by its place \<open>(p, q)\<close> in the grid,
  its column shift is \<open>p\<close>, its row shift \<open>q\<close>, the strides are \<open>r\<close> and \<open>c\<close>.
\<close>

record 'f DistMatrix =
  Global :: "'f Matrix"
  GridHeight :: nat
  GridWidth :: nat

definition Processes :: "'f DistMatrix \<Rightarrow> (nat \<times> nat) list" where
  "Processes A = List.product [0..<GridHeight A] [0..<GridWidth A]"

definition ColShift :: "nat \<times> nat \<Rightarrow> nat" where
  "ColShift pq = fst pq"

definition RowShift :: "nat \<times> nat \<Rightarrow> nat" where
  "RowShift pq = snd pq"

definition ColStride :: "'f DistMatrix \<Rightarrow> nat" where
  "ColStride A = GridHeight A"

definition RowStride :: "'f DistMatrix \<Rightarrow> nat" where
  "RowStride A = GridWidth A"

text \<open>The number of indices below \<open>n\<close> of the form \<open>shift + k * stride\<close>.\<close>

definition LocalLength :: "nat \<Rightarrow> nat \<Rightarrow> nat \<Rightarrow> nat" where
  "LocalLength n shift stride = (if shift < n then (n - shift - 1) div stride + 1 else 0)"

definition LocalHeight :: "'f DistMatrix \<Rightarrow> nat \<times> nat \<Rightarrow> nat" where
  "LocalHeight A pq = LocalLength (Height (Global A)) (ColShift pq) (ColStride A)"

definition LocalWidth :: "'f DistMatrix \<Rightarrow> nat \<times> nat \<Rightarrow> nat" where
  "LocalWidth A pq = LocalLength (Width (Global A)) (RowShift pq) (RowStride A)"

definition GetLocal :: "'f DistMatrix \<Rightarrow> nat \<times> nat \<Rightarrow> nat \<Rightarrow> nat \<Rightarrow> 'f" where
  "GetLocal A pq iLoc jLoc =
     Get (Global A) (ColShift pq + iLoc * ColStride A) (RowShift pq + jLoc * RowStride A)"

text \<open>Lines 111--126, on the process \<open>pq\<close>: the local part of both vectors of sums.\<close>

definition LocalSums ::
  "('f::real_normed_vector) DistMatrix \<Rightarrow> nat \<Rightarrow> nat \<times> nat \<Rightarrow> real list \<times> real list \<Rightarrow> real list \<times> real list" where
  "LocalSums A n pq acc =
     (let mLocal = LocalHeight A pq; nLocal = LocalWidth A pq;
          rowShift = RowShift pq; colShift = ColShift pq;
          rowStride = RowStride A; colStride = ColStride A
      in fold (\<lambda>jLoc acc.
                let j = rowShift + jLoc * rowStride
                in if j < n - 1
                   then fold (\<lambda>iLoc acc.
                               let i = colShift + iLoc * colStride
                               in if i > j
                                  then ((fst acc)[j := fst acc ! j + Abs (GetLocal A pq iLoc jLoc)],
                                        (snd acc)[i - 1 := snd acc ! (i - 1) + Abs (GetLocal A pq iLoc jLoc)])
                                  else acc)
                          [0..<mLocal] acc
                   else acc)
           [0..<nLocal] acc)"

text \<open>
  \<^verbatim>\<open>mpi::AllReduce(buf, count, comm)\<close> with the default operation: every process
  ends with the element-wise sum of the buffers of all processes.
\<close>

definition AllReduce :: "real list list \<Rightarrow> nat \<Rightarrow> real list" where
  "AllReduce bufs count = map (\<lambda>k. sum_list (map (\<lambda>buf. buf ! k) bufs)) [0..<count]"

definition ComputePartitionDist :: "('f::real_normed_vector) DistMatrix \<Rightarrow> error + ValueInt" where
  "ComputePartitionDist A =
     (let n = Height (Global A)
      in if n = 0 then Inr \<lparr>value = Finite (- 1), index = - 1\<rparr>
         else let locals = map (\<lambda>pq. LocalSums A n pq (replicate (n - 1) 0, replicate (n - 1) 0))
                             (Processes A);
                  colSums = AllReduce (map fst locals) (n - 1);
                  rowSums = AllReduce (map snd locals) (n - 1)
              in map_sum id Partition (NormScan colSums rowSums n))"

section \<open>The external collaborators\<close>

text \<open>
  The dense kernels, the base-case Schur solver and the random generator are not
  part of \<^verbatim>\<open>SDC.hpp\<close>; the functions of the file are modelled over an
  arbitrary implementation of them, a record \<open>K\<close> of functions. The global random
  generator is an explicit state \<open>'g\<close> that every drawing kernel takes and returns.
  \<^item> \<open>Sign\<close>: \<^verbatim>\<open>Sign(G)\<close>, the matrix sign function, in place.
  \<^item> \<open>elemQRPivoted\<close>, \<open>elemQR\<close>: \<^verbatim>\<open>elem::QR(G,t,p)\<close> and \<^verbatim>\<open>elem::QR(G,t)\<close>;
    they overwrite \<^verbatim>\<open>G\<close> with the packed reflectors and fill \<^verbatim>\<open>t\<close> (and \<^verbatim>\<open>p\<close>).
  \<^item> \<open>ExpandPackedReflectors\<close>: the call with \<^verbatim>\<open>LOWER, VERTICAL, UNCONJUGATED, 0\<close>,
    which overwrites \<^verbatim>\<open>G\<close> with the explicit unitary matrix.
  \<^item> \<open>qrApplyQ\<close>: \<^verbatim>\<open>qr::ApplyQ(side, orientation, G, t, A)\<close>, new value of \<^verbatim>\<open>A\<close>.
  \<^item> \<open>Gemm\<close>: \<^verbatim>\<open>Gemm(orientA, orientB, alpha, A, B, C)\<close>, the value written to \<^verbatim>\<open>C\<close>.
  \<^item> \<open>schurQR\<close>, \<open>schurQRVectors\<close>: \<^verbatim>\<open>schur::QR(A,w)\<close> and
    \<^verbatim>\<open>schur::QR(A,Q,w,formATR)\<close>; the eigenvalues \<^verbatim>\<open>w\<close> are dropped by the callers.
\<close>

datatype Orientation = NORMAL | TRANSPOSE | ADJOINT

datatype LeftOrRight = LEFT | RIGHT

record ('f, 'g) kernels =
  Sign :: "'f Matrix \<Rightarrow> 'f Matrix"
  elemQRPivoted :: "'f Matrix \<Rightarrow> 'f Matrix \<times> 'f Matrix \<times> int Matrix"
  elemQR :: "'f Matrix \<Rightarrow> 'f Matrix \<times> 'f Matrix"
  ExpandPackedReflectors :: "'f Matrix \<Rightarrow> 'f Matrix \<Rightarrow> 'f Matrix"
  qrApplyQ :: "LeftOrRight \<Rightarrow> Orientation \<Rightarrow> 'f Matrix \<Rightarrow> 'f Matrix \<Rightarrow> 'f Matrix \<Rightarrow> 'f Matrix"
  Gemm :: "Orientation \<Rightarrow> Orientation \<Rightarrow> 'f \<Rightarrow> 'f Matrix \<Rightarrow> 'f Matrix \<Rightarrow> 'f Matrix"
  OneNorm :: "'f Matrix \<Rightarrow> real"
  InfinityNorm :: "'f Matrix \<Rightarrow> real"
  Trace :: "'f Matrix \<Rightarrow> 'f"
  MachineEpsilon :: real
  ImplicitHaar :: "nat \<Rightarrow> 'g \<Rightarrow> ('f Matrix \<times> 'f Matrix) \<times> 'g"
  SampleBall :: "'f \<Rightarrow> real \<Rightarrow> 'g \<Rightarrow> 'f \<times> 'g"
  Uniform :: "real \<Rightarrow> real \<Rightarrow> 'g \<Rightarrow> real \<times> 'g"
  schurQR :: "'f Matrix \<Rightarrow> 'f Matrix"
  schurQRVectors :: "'f Matrix \<Rightarrow> bool \<Rightarrow> 'f Matrix \<times> 'f Matrix"

text \<open>
  The overload of a function is chosen by the type of its matrix arguments: a
  \<^verbatim>\<open>Matrix<F>\<close>, or a \<^verbatim>\<open>DistMatrix<F>\<close> on a grid of \<open>r \<times> c\<close> processes. The
  overloads of \<^verbatim>\<open>SignDivide\<close>, \<^verbatim>\<open>RandomizedSignDivide\<close> and \<^verbatim>\<open>SpectralDivide\<close>
  differ in the overload of \<^verbatim>\<open>ComputePartition\<close> they reach and in the broadcast
  of the random draws from process 0, after which every process holds the value
  drawn there.
\<close>

datatype Overload = Sequential | Distributed nat nat

definition ComputePartitionOf :: "Overload \<Rightarrow> ('f::real_normed_vector) Matrix \<Rightarrow> error + ValueInt" where
  "ComputePartitionOf ovl A =
     (case ovl of
        Sequential \<Rightarrow> ComputePartition A
      | Distributed r c \<Rightarrow> ComputePartitionDist \<lparr>Global = A, GridHeight = r, GridWidth = c\<rparr>)"

subsection \<open>Data movement on matrices\<close>

text \<open>
  Modelled from the spec: the diagonal get and set, the diagonal update and the scaling
  of section 6, which are not among the sources. \<^verbatim>\<open>A.GetDiagonal(d)\<close> copies the
  diagonal into a column vector, \<^verbatim>\<open>A.SetDiagonal(d)\<close> writes it back,
  \<^verbatim>\<open>SetDiagonal(A,alpha)\<close> sets every diagonal entry to \<open>alpha\<close>,
  \<^verbatim>\<open>UpdateDiagonal(A,alpha)\<close> adds \<open>alpha\<close> to every diagonal entry and
  \<^verbatim>\<open>Scale(alpha,A)\<close> multiplies every entry by \<open>alpha\<close>.
\<close>

definition EmptyMatrix :: "('f::zero) Matrix" where
  "EmptyMatrix = \<lparr>Height = 0, Width = 0, Entry = (\<lambda>i j. 0)\<rparr>"

definition OnDiagonal :: "'f Matrix \<Rightarrow> nat \<Rightarrow> nat \<Rightarrow> bool" where
  "OnDiagonal A i j = (i = j \<and> i < min (Height A) (Width A))"

definition GetDiagonal :: "'f Matrix \<Rightarrow> 'f Matrix" where
  "GetDiagonal A = \<lparr>Height = min (Height A) (Width A), Width = 1, Entry = (\<lambda>i j. Entry A i i)\<rparr>"

definition SetDiagonal :: "'f Matrix \<Rightarrow> 'f Matrix \<Rightarrow> 'f Matrix" where
  "SetDiagonal A d = A\<lparr>Entry := (\<lambda>i j. if OnDiagonal A i j then Entry d i 0 else Entry A i j)\<rparr>"

definition SetDiagonalConst :: "'f Matrix \<Rightarrow> 'f \<Rightarrow> 'f Matrix" where
  "SetDiagonalConst A alpha = A\<lparr>Entry := (\<lambda>i j. if OnDiagonal A i j then alpha else Entry A i j)\<rparr>"

definition UpdateDiagonal :: "('f::plus) Matrix \<Rightarrow> 'f \<Rightarrow> 'f Matrix" where
  "UpdateDiagonal A alpha =
     A\<lparr>Entry := (\<lambda>i j. if OnDiagonal A i j then Entry A i j + alpha else Entry A i j)\<rparr>"

definition Scale :: "('f::times) \<Rightarrow> 'f Matrix \<Rightarrow> 'f Matrix" where
  "Scale alpha A = A\<lparr>Entry := (\<lambda>i j. alpha * Entry A i j)\<rparr>"

section \<open>SignDivide (lines 150--192 and 194--235)\<close>

text \<open>
  The function changes \<^verbatim>\<open>A\<close> and \<^verbatim>\<open>G\<close> in place and returns \<^verbatim>\<open>part\<close>; the model
  returns the three.
\<close>

definition SignDivide ::
  "('f::real_normed_field, 'g) kernels \<Rightarrow> Overload \<Rightarrow> 'f Matrix \<Rightarrow> 'f Matrix \<Rightarrow> bool
     \<Rightarrow> error + 'f Matrix \<times> 'f Matrix \<times> ValueInt" where
  "SignDivide K ovl A G returnQ =
     (let G = Sign K G;
          G = UpdateDiagonal G 1;
          G = Scale (1 / 2) G;
          (G, t, p) = elemQRPivoted K G;
          oneA = OneNorm K A;
          (A, G) = (if returnQ
                    then let G = ExpandPackedReflectors K G t;
                             B = Gemm K ADJOINT NORMAL 1 G A;
                             A = Gemm K NORMAL NORMAL 1 B G
                         in (A, G)
                    else let A = qrApplyQ K LEFT ADJOINT G t A;
                             A = qrApplyQ K RIGHT NORMAL G t A
                         in (A, G))
      in case ComputePartitionOf ovl A of
           Inl e \<Rightarrow> Inl e
         | Inr part \<Rightarrow> Inr (A, G, part\<lparr>value := DivideBy (value part) oneA\<rparr>))"

section \<open>RandomizedSignDivide (lines 237--294 and 296--355)\<close>

text \<open>
  The variables the loop reads and writes. \<^verbatim>\<open>part\<close> is declared without a value
  before the loop: \<open>None\<close> until the first pass has assigned it.
\<close>

record ('f, 'g) RSDState =
  stA :: "'f Matrix"
  stG :: "'f Matrix"
  stV :: "'f Matrix"
  stB :: "'f Matrix"
  stT :: "'f Matrix"
  stPart :: "ValueInt option"
  stRng :: 'g

text \<open>
  Lines 263--286, one attempt: the body of the loop up to and including
  \<^verbatim>\<open>part.value /= oneA\<close>. It returns the new state and the \<^verbatim>\<open>part\<close> it assigned.
\<close>

definition RSDAttempt ::
  "('f::real_normed_field, 'g) kernels \<Rightarrow> Overload \<Rightarrow> bool \<Rightarrow> nat \<Rightarrow> real \<Rightarrow> 'f Matrix
     \<Rightarrow> ('f, 'g) RSDState \<Rightarrow> error + ('f, 'g) RSDState \<times> ValueInt" where
  "RSDAttempt K ovl returnQ n oneA S st =
     (let st = st\<lparr>stG := S\<rparr>;
          ((V, t), rng) = ImplicitHaar K n (stRng st);
          st = st\<lparr>stV := V, stT := t, stRng := rng\<rparr>;
          st = st\<lparr>stG := qrApplyQ K RIGHT NORMAL (stV st) (stT st) (stG st)\<rparr>;
          (G, t) = elemQR K (stG st);
          st = st\<lparr>stG := G, stT := t\<rparr>;
          st = st\<lparr>stV := stA st\<rparr>;
          st = (if returnQ
                then let st = st\<lparr>stG := ExpandPackedReflectors K (stG st) (stT st)\<rparr>;
                         st = st\<lparr>stB := Gemm K ADJOINT NORMAL 1 (stG st) (stA st)\<rparr>
                     in st\<lparr>stA := Gemm K NORMAL NORMAL 1 (stB st) (stG st)\<rparr>
                else let st = st\<lparr>stA := qrApplyQ K LEFT ADJOINT (stG st) (stT st) (stA st)\<rparr>
                     in st\<lparr>stA := qrApplyQ K RIGHT NORMAL (stG st) (stT st) (stA st)\<rparr>)
      in case ComputePartitionOf ovl (stA st) of
           Inl e \<Rightarrow> Inl e
         | Inr part \<Rightarrow>
             (let part = part\<lparr>value := DivideBy (value part) oneA\<rparr>
              in Inr (st\<lparr>stPart := Some part\<rparr>, part)))"

text \<open>
  Lines 261--292, the loop from the counter \<open>it\<close> on. After an attempt the loop is left
  (\<^verbatim>\<open>break\<close>) when the value is within the tolerance or the attempt was the last
  one; otherwise \<^verbatim>\<open>A = V\<close> and the next pass starts.
\<close>

function RSDLoop ::
  "('f::real_normed_field, 'g) kernels \<Rightarrow> Overload \<Rightarrow> bool \<Rightarrow> nat \<Rightarrow> real \<Rightarrow> 'f Matrix
     \<Rightarrow> real \<Rightarrow> int \<Rightarrow> nat \<Rightarrow> ('f, 'g) RSDState \<Rightarrow> error + ('f, 'g) RSDState" where
  "RSDLoop K ovl returnQ n oneA S relTol maxIts it st =
     (if int it < maxIts
      then case RSDAttempt K ovl returnQ n oneA S st of
             Inl e \<Rightarrow> Inl e
           | Inr (st', part) \<Rightarrow>
               if AtMost (value part) relTol \<or> int it = maxIts - 1
               then Inr st'
               else RSDLoop K ovl returnQ n oneA S relTol maxIts (Suc it) (st'\<lparr>stA := stV st'\<rparr>)
      else Inr st)"
  by pat_completeness auto
termination
  by (relation "measure (\<lambda>(K, ovl, returnQ, n, oneA, S, relTol, maxIts, it, st). nat (maxIts - int it))")
    auto

declare RSDLoop.simps [simp del]

text \<open>
  The whole function. It changes \<^verbatim>\<open>A\<close> and \<^verbatim>\<open>G\<close> in place and returns
  \<^verbatim>\<open>part\<close>; the model returns the three and the state of the random generator.
  The defaults of the source are \<^verbatim>\<open>returnQ=false, maxIts=10, relTol=0\<close>.
\<close>

definition RandomizedSignDivide ::
  "('f::real_normed_field, 'g) kernels \<Rightarrow> Overload \<Rightarrow> 'f Matrix \<Rightarrow> 'f Matrix \<Rightarrow> bool \<Rightarrow> int \<Rightarrow> real
     \<Rightarrow> 'g \<Rightarrow> error + 'f Matrix \<times> 'f Matrix \<times> ValueInt \<times> 'g" where
  "RandomizedSignDivide K ovl A G returnQ maxIts relTol rng =
     (let n = Height A;
          oneA = OneNorm K A;
          relTol = (if relTol = 0 then 50 * real n * MachineEpsilon K else relTol);
          S = G;
          S = Sign K S;
          S = UpdateDiagonal S 1;
          S = Scale (1 / 2) S;
          st = \<lparr>stA = A, stG = G, stV = EmptyMatrix, stB = EmptyMatrix, stT = EmptyMatrix,
                stPart = None, stRng = rng\<rparr>
      in case RSDLoop K ovl returnQ n oneA S relTol maxIts 0 st of
           Inl e \<Rightarrow> Inl e
         | Inr st \<Rightarrow>
             (case stPart st of
                None \<Rightarrow> Inl UninitializedResult
              | Some part \<Rightarrow> Inr (stA st, stG st, part, stRng st)))"

section \<open>SpectralDivide (lines 357--613)\<close>

text \<open>
  Four overloads for each kind of matrix: a real or a complex field, without or with
  the matrix \<^verbatim>\<open>Q\<close>. The overloads without \<^verbatim>\<open>Q\<close> change \<^verbatim>\<open>A\<close> and return
  \<^verbatim>\<open>part\<close>; those with \<^verbatim>\<open>Q\<close> change \<^verbatim>\<open>A\<close> and \<^verbatim>\<open>Q\<close>.
\<close>

definition SpectralDivide ::
  "(real, 'g) kernels \<Rightarrow> Overload \<Rightarrow> real Matrix \<Rightarrow> 'g \<Rightarrow> error + real Matrix \<times> ValueInt \<times> 'g" where
  "SpectralDivide K ovl A rng =
     (let n = Height A;
          gershCenter = Trace K A / real n;
          d = GetDiagonal A;
          A = SetDiagonalConst A 0;
          offDiagInf = InfinityNorm K A;
          A = SetDiagonal A d;
          (shift, rng) = SampleBall K (- gershCenter) (0.001 * offDiagInf) rng;
          G = A;
          G = UpdateDiagonal G shift
      in case RandomizedSignDivide K ovl A G False 10 0 rng of
           Inl e \<Rightarrow> Inl e
         | Inr (A, G, part, rng) \<Rightarrow> Inr (A, part, rng))"

definition SpectralDivideComplex ::
  "(complex, 'g) kernels \<Rightarrow> Overload \<Rightarrow> complex Matrix \<Rightarrow> 'g \<Rightarrow> error + complex Matrix \<times> ValueInt \<times> 'g" where
  "SpectralDivideComplex K ovl A rng =
     (let n = Height A;
          gershCenter = Trace K A / of_nat n;
          d = GetDiagonal A;
          A = SetDiagonalConst A 0;
          offDiagInf = InfinityNorm K A;
          A = SetDiagonal A d;
          (shift, rng) = SampleBall K (- gershCenter) (0.001 * offDiagInf) rng;
          (angle, rng) = Uniform K 0 (2 * pi) rng;
          gamma = Complex (cos angle) (sin angle);
          G = A;
          G = UpdateDiagonal G shift;
          G = Scale gamma G
      in case RandomizedSignDivide K ovl A G False 10 0 rng of
           Inl e \<Rightarrow> Inl e
         | Inr (A, G, part, rng) \<Rightarrow> Inr (A, part, rng))"

definition SpectralDivideQ ::
  "(real, 'g) kernels \<Rightarrow> Overload \<Rightarrow> real Matrix \<Rightarrow> real Matrix \<Rightarrow> 'g
     \<Rightarrow> error + real Matrix \<times> real Matrix \<times> ValueInt \<times> 'g" where
  "SpectralDivideQ K ovl A Q rng =
     (let n = Height A;
          gershCenter = Trace K A / real n;
          d = GetDiagonal A;
          A = SetDiagonalConst A 0;
          offDiagInf = InfinityNorm K A;
          A = SetDiagonal A d;
          (shift, rng) = SampleBall K (- gershCenter) (0.001 * offDiagInf) rng;
          Q = A;
          Q = UpdateDiagonal Q shift
      in RandomizedSignDivide K ovl A Q True 10 0 rng)"

definition SpectralDivideComplexQ ::
  "(complex, 'g) kernels \<Rightarrow> Overload \<Rightarrow> complex Matrix \<Rightarrow> complex Matrix \<Rightarrow> 'g
     \<Rightarrow> error + complex Matrix \<times> complex Matrix \<times> ValueInt \<times> 'g" where
  "SpectralDivideComplexQ K ovl A Q rng =
     (let n = Height A;
          gershCenter = Trace K A / of_nat n;
          d = GetDiagonal A;
          A = SetDiagonalConst A 0;
          offDiagInf = InfinityNorm K A;
          A = SetDiagonal A d;
          (shift, rng) = SampleBall K (- gershCenter) (0.001 * offDiagInf) rng;
          (angle, rng) = Uniform K 0 (2 * pi) rng;
          gamma = Complex (cos angle) (sin angle);
          Q = A;
          Q = UpdateDiagonal Q shift;
          Q = Scale gamma Q
      in RandomizedSignDivide K ovl A Q True 10 0 rng)"

section \<open>SDC (lines 615--768)\<close>

text \<open>
  Modelled from the spec: \<^verbatim>\<open>PartitionDownDiagonal\<close> and \<^verbatim>\<open>PartitionRight\<close>, which
  are not among the sources. Section 4.4 has them cut \<^verbatim>\<open>A\<close> into four quadrants at
  \<open>(splitIndex, splitIndex)\<close> and the columns of \<^verbatim>\<open>Q\<close> at the same index; a cut
  outside the matrix is an error. The quadrants are views of the matrix they cut:
  what is written to a quadrant is written to the matrix, and the quadrants do not
  overlap. The model passes the quadrants as values and puts the matrix together again
  from the quadrants when the function returns.
\<close>

definition View :: "'f Matrix \<Rightarrow> nat \<Rightarrow> nat \<Rightarrow> nat \<Rightarrow> nat \<Rightarrow> 'f Matrix" where
  "View A i j h w = \<lparr>Height = h, Width = w, Entry = (\<lambda>a b. Entry A (i + a) (j + b))\<rparr>"

definition PartitionDownDiagonal ::
  "'f Matrix \<Rightarrow> int \<Rightarrow> error + 'f Matrix \<times> 'f Matrix \<times> 'f Matrix \<times> 'f Matrix" where
  "PartitionDownDiagonal A diagDist =
     (if 0 \<le> diagDist \<and> diagDist \<le> int (min (Height A) (Width A))
      then let k = nat diagDist
           in Inr (View A 0 0 k k, View A 0 k k (Width A - k),
                   View A k 0 (Height A - k) k, View A k k (Height A - k) (Width A - k))
      else Inl BadPartitionIndex)"

definition PartitionRight :: "'f Matrix \<Rightarrow> int \<Rightarrow> error + 'f Matrix \<times> 'f Matrix" where
  "PartitionRight A width =
     (if 0 \<le> width \<and> width \<le> int (Width A)
      then let k = nat width
           in Inr (View A 0 0 (Height A) k, View A 0 k (Height A) (Width A - k))
      else Inl BadPartitionIndex)"

definition Merge2x2 :: "'f Matrix \<Rightarrow> 'f Matrix \<Rightarrow> 'f Matrix \<Rightarrow> 'f Matrix \<Rightarrow> 'f Matrix" where
  "Merge2x2 TL TR BL BR =
     \<lparr>Height = Height TL + Height BL, Width = Width TL + Width TR,
      Entry = (\<lambda>i j. if i < Height TL
                      then (if j < Width TL then Entry TL i j else Entry TR i (j - Width TL))
                      else (if j < Width TL then Entry BL (i - Height TL) j
                            else Entry BR (i - Height TL) (j - Width TL)))\<rparr>"

definition Merge1x2 :: "'f Matrix \<Rightarrow> 'f Matrix \<Rightarrow> 'f Matrix" where
  "Merge1x2 L R =
     \<lparr>Height = Height L, Width = Width L + Width R,
      Entry = (\<lambda>i j. if j < Width L then Entry L i j else Entry R i (j - Width L))\<rparr>"


text \<open>
  Lines 644--684, with Schur vectors, on a \<^verbatim>\<open>Matrix<F>\<close>. The one matrix \<^verbatim>\<open>Z\<close>
  receives the Schur vectors of both recursive calls, the one matrix \<^verbatim>\<open>G\<close> is the
  buffer of every product.
\<close>

fun SDCVectors ::
  "nat \<Rightarrow> ('f Matrix \<Rightarrow> 'f Matrix \<Rightarrow> 'g \<Rightarrow> error + 'f Matrix \<times> 'f Matrix \<times> ValueInt \<times> 'g)
     \<Rightarrow> ('f::real_normed_field, 'g) kernels
     \<Rightarrow> 'f Matrix \<Rightarrow> 'f Matrix \<Rightarrow> bool \<Rightarrow> int \<Rightarrow> 'g \<Rightarrow> error + 'f Matrix \<times> 'f Matrix \<times> 'g" where
  "SDCVectors 0 split K A Q formATR cutoff rng = Inl OutOfFuel"
| "SDCVectors (Suc fuel) split K A Q formATR cutoff rng =
     (let n = Height A
      in if int n \<le> cutoff
         then (case schurQRVectors K A formATR of (A, Q) \<Rightarrow> Inr (A, Q, rng))
         else case split A Q rng of
                Inl e \<Rightarrow> Inl e
              | Inr (A, Q, part, rng) \<Rightarrow>
         (case PartitionDownDiagonal A (index part) of
                Inl e \<Rightarrow> Inl e
              | Inr (ATL, ATR, ABL, ABR) \<Rightarrow>
         (case PartitionRight Q (index part) of
                Inl e \<Rightarrow> Inl e
              | Inr (QL, QR) \<Rightarrow>
         (case SDCVectors fuel split K ATL EmptyMatrix formATR cutoff rng of
                Inl e \<Rightarrow> Inl e
              | Inr (ATL, Z, rng) \<Rightarrow>
         (let G = QL;
              QL = Gemm K NORMAL NORMAL 1 G Z;
              G = (if formATR then Gemm K ADJOINT NORMAL 1 Z ATR else G)
          in case SDCVectors fuel split K ABR Z formATR cutoff rng of
                Inl e \<Rightarrow> Inl e
              | Inr (ABR, Z, rng) \<Rightarrow>
         (let ATR = (if formATR then Gemm K NORMAL NORMAL 1 G Z else ATR);
              G = QR;
              QR = Gemm K NORMAL NORMAL 1 G Z
          in Inr (Merge2x2 ATL ATR ABL ABR, Merge1x2 QL QR, rng)))))))"

text \<open>
  Lines 719--768, with Schur vectors, on a \<^verbatim>\<open>DistMatrix<F>\<close>: both recursive calls
  come first, each with a matrix of its own for the Schur vectors, then the updates.
\<close>

fun SDCVectorsDist ::
  "nat \<Rightarrow> ('f Matrix \<Rightarrow> 'f Matrix \<Rightarrow> 'g \<Rightarrow> error + 'f Matrix \<times> 'f Matrix \<times> ValueInt \<times> 'g)
     \<Rightarrow> ('f::real_normed_field, 'g) kernels
     \<Rightarrow> 'f Matrix \<Rightarrow> 'f Matrix \<Rightarrow> bool \<Rightarrow> int \<Rightarrow> 'g \<Rightarrow> error + 'f Matrix \<times> 'f Matrix \<times> 'g" where
  "SDCVectorsDist 0 split K A Q formATR cutoff rng = Inl OutOfFuel"
| "SDCVectorsDist (Suc fuel) split K A Q formATR cutoff rng =
     (let n = Height A
      in if int n \<le> cutoff
         then (case schurQRVectors K A formATR of (A, Q) \<Rightarrow> Inr (A, Q, rng))
         else case split A Q rng of
                Inl e \<Rightarrow> Inl e
              | Inr (A, Q, part, rng) \<Rightarrow>
         (case PartitionDownDiagonal A (index part) of
                Inl e \<Rightarrow> Inl e
              | Inr (ATL, ATR, ABL, ABR) \<Rightarrow>
         (case PartitionRight Q (index part) of
                Inl e \<Rightarrow> Inl e
              | Inr (QL, QR) \<Rightarrow>
         (case SDCVectorsDist fuel split K ATL EmptyMatrix formATR cutoff rng of
                Inl e \<Rightarrow> Inl e
              | Inr (ATL, ZT, rng) \<Rightarrow>
         (case SDCVectorsDist fuel split K ABR EmptyMatrix formATR cutoff rng of
                Inl e \<Rightarrow> Inl e
              | Inr (ABR, ZB, rng) \<Rightarrow>
         (let G = QL;
              QL = Gemm K NORMAL NORMAL 1 G ZT;
              G = QR;
              QR = Gemm K NORMAL NORMAL 1 G ZB;
              ATR = (if formATR
                     then let G = Gemm K ADJOINT NORMAL 1 ZT ATR
                          in Gemm K NORMAL NORMAL 1 G ZB
                     else ATR)
          in Inr (Merge2x2 ATL ATR ABL ABR, Merge1x2 QL QR, rng)))))))"

section \<open>The attempts of RandomizedSignDivide, one by one\<close>

text \<open>
  \<open>RSDHead j\<close> runs the body of the loop \<open>j\<close> times from a state, each time followed
  by \<^verbatim>\<open>A = V\<close>: the state in which pass number \<open>j\<close> (counted from 0) starts when the
  passes before it were all rejected. \<open>RSDNth j\<close> is the outcome of the attempt made
  in pass number \<open>j\<close>, and \<open>RSDRejected j\<close> says that this attempt found a value above
  the tolerance.
\<close>

fun RSDHead ::
  "('f::real_normed_field, 'g) kernels \<Rightarrow> Overload \<Rightarrow> bool \<Rightarrow> nat \<Rightarrow> real \<Rightarrow> 'f Matrix
     \<Rightarrow> nat \<Rightarrow> ('f, 'g) RSDState \<Rightarrow> error + ('f, 'g) RSDState" where
  "RSDHead K ovl returnQ n oneA S 0 st = Inr st"
| "RSDHead K ovl returnQ n oneA S (Suc j) st =
     (case RSDHead K ovl returnQ n oneA S j st of
        Inl e \<Rightarrow> Inl e
      | Inr s \<Rightarrow>
          (case RSDAttempt K ovl returnQ n oneA S s of
             Inl e \<Rightarrow> Inl e
           | Inr (s', part) \<Rightarrow> Inr (s'\<lparr>stA := stV s'\<rparr>)))"

definition RSDNth ::
  "('f::real_normed_field, 'g) kernels \<Rightarrow> Overload \<Rightarrow> bool \<Rightarrow> nat \<Rightarrow> real \<Rightarrow> 'f Matrix
     \<Rightarrow> nat \<Rightarrow> ('f, 'g) RSDState \<Rightarrow> error + ('f, 'g) RSDState \<times> ValueInt" where
  "RSDNth K ovl returnQ n oneA S j st =
     (case RSDHead K ovl returnQ n oneA S j st of
        Inl e \<Rightarrow> Inl e
      | Inr s \<Rightarrow> RSDAttempt K ovl returnQ n oneA S s)"

definition RSDRejected ::
  "('f::real_normed_field, 'g) kernels \<Rightarrow> Overload \<Rightarrow> bool \<Rightarrow> nat \<Rightarrow> real \<Rightarrow> 'f Matrix
     \<Rightarrow> real \<Rightarrow> nat \<Rightarrow> ('f, 'g) RSDState \<Rightarrow> bool" where
  "RSDRejected K ovl returnQ n oneA S relTol j st =
     (case RSDNth K ovl returnQ n oneA S j st of
        Inl e \<Rightarrow> False
      | Inr (s, part) \<Rightarrow> \<not> AtMost (value part) relTol)"

text \<open>
  The values \<^verbatim>\<open>RandomizedSignDivide\<close> computes before its loop: the tolerance
  (line 249), the projector \<^verbatim>\<open>S\<close> (lines 254--257) and the variables at the start of
  the loop.
\<close>

definition RSDTolerance :: "('f, 'g) kernels \<Rightarrow> 'f Matrix \<Rightarrow> real \<Rightarrow> real" where
  "RSDTolerance K A relTol = (if relTol = 0 then 50 * real (Height A) * MachineEpsilon K else relTol)"

definition RSDProjector :: "('f::real_normed_field, 'g) kernels \<Rightarrow> 'f Matrix \<Rightarrow> 'f Matrix" where
  "RSDProjector K G = Scale (1 / 2) (UpdateDiagonal (Sign K G) 1)"

definition RSDInitial :: "('f::zero) Matrix \<Rightarrow> 'f Matrix \<Rightarrow> 'g \<Rightarrow> ('f, 'g) RSDState" where
  "RSDInitial A G rng =
     \<lparr>stA = A, stG = G, stV = EmptyMatrix, stB = EmptyMatrix, stT = EmptyMatrix,
      stPart = None, stRng = rng\<rparr>"

text \<open>The outcome of attempt number \<open>j\<close> of a call of \<^verbatim>\<open>RandomizedSignDivide\<close>.\<close>

definition RSDAttemptNo ::
  "('f::real_normed_field, 'g) kernels \<Rightarrow> Overload \<Rightarrow> 'f Matrix \<Rightarrow> 'f Matrix \<Rightarrow> bool \<Rightarrow> 'g \<Rightarrow> nat
     \<Rightarrow> error + ('f, 'g) RSDState \<times> ValueInt" where
  "RSDAttemptNo K ovl A G returnQ rng j =
     RSDNth K ovl returnQ (Height A) (OneNorm K A) (RSDProjector K G) j (RSDInitial A G rng)"

text \<open>Lines 266--268: the factorisation an attempt computes from the generator state.\<close>

definition RSDFactorize ::
  "('f, 'g) kernels \<Rightarrow> nat \<Rightarrow> 'f Matrix \<Rightarrow> 'g \<Rightarrow> 'f Matrix \<times> 'f Matrix" where
  "RSDFactorize K n S rng =
     (let ((V, t), rng') = ImplicitHaar K n rng;
          G = qrApplyQ K RIGHT NORMAL V t S
      in elemQR K G)"

section \<open>An instance of the collaborators for concrete inputs\<close>

text \<open>
  Kernels in which every unitary factor is the exchange matrix \<open>J\<close> (ones on the
  anti-diagonal, a permutation): applying \<^verbatim>\<open>Q\<close> from the left reverses the rows,
  from the right the columns, and a product is taken with \<open>J\<close> as the unitary
  factor. The generator state counts the draws, a draw from a ball is its centre, and
  the sign function is a placeholder. The norms and the trace are the usual ones.
\<close>

definition OneNormOf :: "('f::real_normed_vector) Matrix \<Rightarrow> real" where
  "OneNormOf A =
     fold max (map (\<lambda>j. sum_list (map (\<lambda>i. Abs (Entry A i j)) [0..<Height A])) [0..<Width A]) 0"

definition InfinityNormOf :: "('f::real_normed_vector) Matrix \<Rightarrow> real" where
  "InfinityNormOf A =
     fold max (map (\<lambda>i. sum_list (map (\<lambda>j. Abs (Entry A i j)) [0..<Width A])) [0..<Height A]) 0"

definition TraceOf :: "('f::monoid_add) Matrix \<Rightarrow> 'f" where
  "TraceOf A = sum_list (map (\<lambda>i. Entry A i i) [0..<min (Height A) (Width A)])"

definition FlipRows :: "'f Matrix \<Rightarrow> 'f Matrix" where
  "FlipRows A = A\<lparr>Entry := (\<lambda>i j. Entry A (Height A - 1 - i) j)\<rparr>"

definition FlipCols :: "'f Matrix \<Rightarrow> 'f Matrix" where
  "FlipCols A = A\<lparr>Entry := (\<lambda>i j. Entry A i (Width A - 1 - j))\<rparr>"

definition ExchangeMatrix :: "nat \<Rightarrow> real Matrix" where
  "ExchangeMatrix n = \<lparr>Height = n, Width = n, Entry = (\<lambda>i j. if i + j + 1 = n then 1 else 0)\<rparr>"

definition exchangeKernels :: "(real, nat) kernels" where
  "exchangeKernels =
     \<lparr>Sign = (\<lambda>G. G),
      elemQRPivoted = (\<lambda>G. (G, EmptyMatrix, EmptyMatrix)),
      elemQR = (\<lambda>G. (G, EmptyMatrix)),
      ExpandPackedReflectors = (\<lambda>G t. ExchangeMatrix (Height G)),
      qrApplyQ = (\<lambda>side orientation G t A. case side of LEFT \<Rightarrow> FlipRows A | RIGHT \<Rightarrow> FlipCols A),
      Gemm = (\<lambda>orientA orientB alpha A B. if orientA = NORMAL then FlipCols A else FlipRows B),
      OneNorm = OneNormOf,
      InfinityNorm = InfinityNormOf,
      Trace = TraceOf,
      MachineEpsilon = 1 / 2 ^ 52,
      ImplicitHaar = (\<lambda>n g. ((EmptyMatrix, EmptyMatrix), Suc g)),
      SampleBall = (\<lambda>center radius g. (center, Suc g)),
      Uniform = (\<lambda>a b g. (a, Suc g)),
      schurQR = (\<lambda>A. A),
      schurQRVectors = (\<lambda>A formATR. (A, ExchangeMatrix (Height A)))\<rparr>"

text \<open>Matrices for concrete inputs: a matrix from its rows.\<close>

definition FromRows :: "nat \<Rightarrow> nat \<Rightarrow> 'f list list \<Rightarrow> 'f Matrix" where
  "FromRows h w rows = \<lparr>Height = h, Width = w, Entry = (\<lambda>i j. rows ! i ! j)\<rparr>"

definition OnGrid :: "nat \<Rightarrow> nat \<Rightarrow> 'f Matrix \<Rightarrow> 'f DistMatrix" where
  "OnGrid r c A = \<lparr>Global = A, GridHeight = r, GridWidth = c\<rparr>"

text \<open>A matrix with one entry above the diagonal, and its image under the exchange.\<close>

definition upper2 :: "real Matrix" where
  "upper2 = FromRows 2 2 [[0, 1], [0, 0]]"

definition lower2 :: "real Matrix" where
  "lower2 = FlipCols (FlipRows upper2)"

definition zero2 :: "real Matrix" where
  "zero2 = \<lparr>Height = 2, Width = 2, Entry = (\<lambda>i j. 0)\<rparr>"

section \<open>The quantities the properties of ComputePartition are stated with\<close>



text \<open>A \<open>3 \<times> 3\<close> matrix whose only entry below the diagonal is in row 1, column 0.\<close>

definition coupled3 :: "real Matrix" where
  "coupled3 = FromRows 3 3 [[0, 0, 0], [1, 0, 0], [0, 0, 0]]"


text \<open>
  What the inner pass of lines 111--126 does at the local position \<open>x = (jLoc, iLoc)\<close>:
  whether it updates, the two indices it updates at, and the magnitude it adds.
\<close>

definition LocalEntry :: "('f::real_normed_vector) DistMatrix \<Rightarrow> nat \<Rightarrow> nat \<times> nat \<Rightarrow> nat \<times> nat \<Rightarrow> bool \<times> nat \<times> nat \<times> real" where
  "LocalEntry A n pq x =
     (let j = RowShift pq + fst x * RowStride A; i = ColShift pq + snd x * ColStride A
      in (j < n - 1 \<and> i > j, j, i - 1, Abs (GetLocal A pq (snd x) (fst x))))"

section \<open>Properties of ComputePartition\<close>

lemma NormStep_length: "length (fst (NormStep cs rs j st)) = length (fst st)"
  by (simp add: NormStep_def Let_def)

lemma NormStep_index:
  assumes "1 \<le> snd (snd st)" "snd (snd st) \<le> int m" "j < m"
  shows "1 \<le> snd (snd (NormStep cs rs j st)) \<and> snd (snd (NormStep cs rs j st)) \<le> int m"
  using assms by (simp add: NormStep_def Let_def)

lemma NormScan_fold_index:
  assumes "1 \<le> snd (snd st)" "snd (snd st) \<le> int m" "\<forall>j \<in> set js. j < m"
  shows "1 \<le> snd (snd (fold (NormStep cs rs) js st))
         \<and> snd (snd (fold (NormStep cs rs) js st)) \<le> int m"
  using assms
proof (induction js arbitrary: st)
  case Nil
  then show ?case by simp
next
  case (Cons j js)
  have "j < m" using Cons.prems(3) by simp
  then have step: "1 \<le> snd (snd (NormStep cs rs j st)) \<and> snd (snd (NormStep cs rs j st)) \<le> int m"
    using NormStep_index [OF Cons.prems(1) Cons.prems(2)] by blast
  have rest: "\<forall>k \<in> set js. k < m" using Cons.prems(3) by simp
  show ?case
    using Cons.IH [of "NormStep cs rs j st"] step rest by simp
qed

lemma NormScan_index:
  assumes "2 \<le> n" "0 < length cs"
  shows "\<exists>st. NormScan cs rs n = Inr st \<and> 1 \<le> index (Partition st) \<and> index (Partition st) \<le> int n - 1"
proof -
  let ?st = "((replicate (n - 1) 0)[0 := cs ! 0], (replicate (n - 1) (0::real))[0 := cs ! 0] ! 0, 1::int)"
  have e: "NormScan cs rs n = Inr (fold (NormStep cs rs) [1..<n - 1] ?st)"
    using assms by (simp add: NormScan_def Let_def)
  have "1 \<le> snd (snd (fold (NormStep cs rs) [1..<n - 1] ?st))
        \<and> snd (snd (fold (NormStep cs rs) [1..<n - 1] ?st)) \<le> int (n - 1)"
    by (rule NormScan_fold_index) (use assms in auto)
  then show ?thesis
    using e assms by (auto simp: of_nat_diff Partition_def)
qed


lemma ColumnSums_inner_length:
  "length (fold (\<lambda>i cs. cs[j := cs ! j + h i]) is cs) = length cs"
  by (induction "is" arbitrary: cs) auto

lemma ColumnSums_length: "length (ColumnSums A n cs) = length cs"
proof -
  have "length (fold (\<lambda>j cs. fold (\<lambda>i cs. cs[j := cs ! j + Abs (Get A i j)]) [j + 1..<n] cs) js cs)
        = length cs" for js
    by (induction js arbitrary: cs) (auto simp: ColumnSums_inner_length)
  then show ?thesis by (simp add: ColumnSums_def)
qed

lemma AllReduce_length: "length (AllReduce bufs count) = count"
  by (simp add: AllReduce_def)

lemma ComputePartition_index_range:
  assumes "2 \<le> Height A"
  shows "\<exists>part. ComputePartition A = Inr part \<and> 1 \<le> index part \<and> index part \<le> int (Height A) - 1"
proof -
  let ?n = "Height A"
  let ?cs = "ColumnSums A ?n (replicate (?n - 1) 0)"
  have "0 < length ?cs" using assms by (simp add: ColumnSums_length)
  from NormScan_index [OF assms this]
  obtain st where "NormScan ?cs (RowSums A ?n (replicate (?n - 1) 0)) ?n = Inr st"
    and "1 \<le> index (Partition st)" and "index (Partition st) \<le> int ?n - 1"
    by blast
  then show ?thesis using assms by (simp add: ComputePartition_def Let_def)
qed

lemma ComputePartitionDist_index_range:
  assumes "2 \<le> Height (Global A)"
  shows "\<exists>part. ComputePartitionDist A = Inr part \<and> 1 \<le> index part
           \<and> index part \<le> int (Height (Global A)) - 1"
proof -
  let ?n = "Height (Global A)"
  let ?locals = "map (\<lambda>pq. LocalSums A ?n pq (replicate (?n - 1) 0, replicate (?n - 1) 0)) (Processes A)"
  let ?cs = "AllReduce (map fst ?locals) (?n - 1)"
  have "0 < length ?cs" using assms by (simp add: AllReduce_length)
  from NormScan_index [OF assms this]
  obtain st where "NormScan ?cs (AllReduce (map snd ?locals) (?n - 1)) ?n = Inr st"
    and "1 \<le> index (Partition st)" and "index (Partition st) \<le> int ?n - 1"
    by blast
  then show ?thesis using assms by (simp add: ComputePartitionDist_def Let_def)
qed

text \<open>
  C1. For \<open>n \<ge> 2\<close> both overloads return an index in \<open>[1, n-1]\<close> (the two lemmas
  above). The sentinel for the sizes with no split is returned by neither overload for
  \<open>n = 1\<close>, where \<^verbatim>\<open>norms[0] = colSums[0]\<close> touches two empty vectors, and not by
  the sequential overload for \<open>n = 0\<close>, which builds the sentinel and leaves through
  \<^verbatim>\<open>return;\<close>. The theorem evaluates the code at a \<open>1 \<times> 1\<close> and at the
  \<open>0 \<times> 0\<close> matrix.
\<close>

theorem ComputePartition_no_sentinel:
  "ComputePartition (FromRows 1 1 [[5::real]]) = Inl IndexOutOfRange
   \<and> ComputePartitionDist (OnGrid 1 1 (FromRows 1 1 [[5::real]])) = Inl IndexOutOfRange
   \<and> ComputePartition (FromRows 0 0 ([]::real list list)) = Inl NoReturnValue
   \<and> ComputePartitionDist (OnGrid 1 1 (FromRows 0 0 ([]::real list list)))
       = Inr \<lparr>value = Finite (- 1), index = - 1\<rparr>"
  by (simp add: ComputePartition_def ComputePartitionDist_def OnGrid_def FromRows_def
      ColumnSums_def RowSums_def NormScan_def)

section \<open>ComputePartition: the sums and the minimum\<close>

lemma accumulate_at:
  "fold (\<lambda>i cs. cs[j := cs ! j + h i]) is cs = cs[j := cs ! j + sum_list (map h is)]"
proof (induction "is" arbitrary: cs)
  case Nil
  then show ?case by simp
next
  case (Cons i "is")
  show ?case
  proof (cases "j < length cs")
    case True
    then show ?thesis by (simp add: Cons.IH add.assoc)
  next
    case False
    then show ?thesis by (simp add: Cons.IH list_update_beyond)
  qed
qed

lemma accumulate_each:
  assumes "distinct js" "m < length cs"
  shows "fold (\<lambda>j cs. cs[k j := cs ! k j + H j]) js cs ! m
         = cs ! m + sum_list (map H (filter (\<lambda>j. k j = m) js))"
  using assms
proof (induction js arbitrary: cs)
  case Nil
  then show ?case by simp
next
  case (Cons j js)
  have len: "m < length (cs[k j := cs ! k j + H j])" using Cons.prems by simp
  have d: "distinct js" using Cons.prems by simp
  show ?case
    using Cons.IH [OF d len] Cons.prems(2)
    by (cases "k j = m") (simp_all add: add.assoc)
qed

lemma ColumnSums_nth:
  assumes "j < n - 1"
  shows "ColumnSums A n (replicate (n - 1) 0) ! j = (\<Sum>i = j + 1..<n. Abs (Get A i j))"
proof -
  let ?H = "\<lambda>j. sum_list (map (\<lambda>i. Abs (Get A i j)) [j + 1..<n])"
  have "ColumnSums A n (replicate (n - 1) 0)
          = fold (\<lambda>j cs. cs[j := cs ! j + ?H j]) [0..<n - 1] (replicate (n - 1) 0)"
    by (simp add: ColumnSums_def accumulate_at)
  moreover have "fold (\<lambda>j cs. cs[j := cs ! j + ?H j]) [0..<n - 1] (replicate (n - 1) 0) ! j
          = replicate (n - 1) 0 ! j + sum_list (map ?H (filter (\<lambda>j'. j' = j) [0..<n - 1]))"
    by (rule accumulate_each [where k = "\<lambda>j. j"]) (use assms in simp_all)
  moreover have "filter (\<lambda>j'. j' = j) [0..<n - 1] = [j]"
  proof -
    have "filter (\<lambda>j'. j' = j) [0..<m] = (if j < m then [j] else [])" for m
      by (induction m) (auto simp: less_Suc_eq filter_empty_conv)
    then show ?thesis using assms by simp
  qed
  ultimately show ?thesis
    using assms by (simp add: interv_sum_list_conv_sum_set_nat)
qed

lemma RowSums_nth:
  assumes "k < n - 2"
  shows "RowSums A n (replicate (n - 1) 0) ! k = (\<Sum>j = 0..<k + 1. Abs (Get A (k + 1) j))"
proof -
  let ?H = "\<lambda>i. sum_list (map (\<lambda>j. Abs (Get A i j)) [0..<i])"
  have "RowSums A n (replicate (n - 1) 0)
          = fold (\<lambda>i rs. rs[i - 1 := rs ! (i - 1) + ?H i]) [1..<n - 1] (replicate (n - 1) 0)"
    by (simp add: RowSums_def accumulate_at)
  moreover have "fold (\<lambda>i rs. rs[i - 1 := rs ! (i - 1) + ?H i]) [1..<n - 1] (replicate (n - 1) 0) ! k
          = replicate (n - 1) 0 ! k + sum_list (map ?H (filter (\<lambda>i. i - 1 = k) [1..<n - 1]))"
    by (rule accumulate_each [where k = "\<lambda>i. i - 1"]) (use assms in simp_all)
  moreover have "filter (\<lambda>i. i - 1 = k) [1..<n - 1] = [k + 1]"
  proof -
    have "filter (\<lambda>i. i - 1 = k) [1..<m] = (if k + 1 < m then [k + 1] else [])" for m
      by (induction m) (auto simp: less_Suc_eq filter_empty_conv)
    then show ?thesis using assms by simp
  qed
  ultimately show ?thesis
    using assms by (simp add: interv_sum_list_conv_sum_set_nat)
qed











section \<open>ComputePartition: the distributed overload against the sequential one\<close>

lemma accumulate_where:
  assumes "m < length cs"
  shows "fold (\<lambda>x cs. if c x then cs[k x := cs ! k x + H x] else cs) xs cs ! m
         = cs ! m + sum_list (map (\<lambda>x. if c x \<and> k x = m then H x else 0) xs)"
  using assms
proof (induction xs arbitrary: cs)
  case Nil
  then show ?case by simp
next
  case (Cons x xs)
  let ?cs = "if c x then cs[k x := cs ! k x + H x] else cs"
  have len: "m < length ?cs" using Cons.prems by simp
  show ?case
    using Cons.IH [OF len] Cons.prems
    by (cases "c x"; cases "k x = m") (simp_all add: add.assoc)
qed

lemma accumulate_where_length:
  "length (fold (\<lambda>x cs. if c x then cs[k x := cs ! k x + H x] else cs) xs cs) = length cs"
  by (induction xs arbitrary: cs) auto

lemma fold_pair:
  "fold (\<lambda>x acc. (f x (fst acc), g x (snd acc))) xs (a, b) = (fold f xs a, fold g xs b)"
  by (induction xs arbitrary: a b) auto

lemma fold_nested:
  "fold (\<lambda>x s. fold (F x) ys s) xs s = fold (\<lambda>xy. F (fst xy) (snd xy)) (List.product xs ys) s"
  by (induction xs arbitrary: s) (auto simp: fold_map comp_def)

lemma sum_list_product:
  "sum_list (map f (List.product xs ys)) = sum_list (map (\<lambda>x. sum_list (map (\<lambda>y. f (x, y)) ys)) xs)"
  by (induction xs) (auto simp: comp_def)

lemma LocalLength_less:
  assumes "0 < r"
  shows "k < LocalLength n p r \<longleftrightarrow> p + k * r < n"
proof (cases "p < n")
  case True
  have "k < (n - p - 1) div r + 1 \<longleftrightarrow> k \<le> (n - p - 1) div r" by auto
  also have "\<dots> \<longleftrightarrow> k * r \<le> n - p - 1" using assms by (simp add: less_eq_div_iff_mult_less_eq)
  also have "\<dots> \<longleftrightarrow> p + k * r < n" using True by auto
  finally show ?thesis using True by (simp add: LocalLength_def)
next
  case False
  then show ?thesis by (simp add: LocalLength_def)
qed

lemma cyclic_sum:
  fixes f :: "nat \<Rightarrow> real"
  assumes "0 < r"
  shows "(\<Sum>p = 0..<r. \<Sum>k = 0..<LocalLength n p r. f (p + k * r)) = (\<Sum>i = 0..<n. f i)"
proof -
  have "(\<Sum>p = 0..<r. \<Sum>k = 0..<LocalLength n p r. f (p + k * r))
        = (\<Sum>(p, k) \<in> (SIGMA p:{0..<r}. {0..<LocalLength n p r}). f (p + k * r))"
    by (simp add: sum.Sigma)
  also have "\<dots> = (\<Sum>i = 0..<n. f i)"
    by (rule sum.reindex_bij_witness [where i = "\<lambda>i. (i mod r, i div r)" and j = "\<lambda>(p, k). p + k * r"])
      (use assms in \<open>auto simp: LocalLength_less\<close>)
  finally show ?thesis .
qed


lemma LocalSums_flat:
  "LocalSums A n pq acc =
     fold (\<lambda>x acc.
             (case LocalEntry A n pq x of
                (visit, j, i1, a) \<Rightarrow>
                  (if visit then (fst acc)[j := fst acc ! j + a] else fst acc,
                   if visit then (snd acc)[i1 := snd acc ! i1 + a] else snd acc)))
       (List.product [0..<LocalWidth A pq] [0..<LocalHeight A pq]) acc"
proof -
  let ?body = "\<lambda>x acc.
             (case LocalEntry A n pq x of
                (visit, j, i1, a) \<Rightarrow>
                  (if visit then (fst acc)[j := fst acc ! j + a] else fst acc,
                   if visit then (snd acc)[i1 := snd acc ! i1 + a] else snd acc))"
  have inner: "(let j = RowShift pq + jLoc * RowStride A
                in if j < n - 1
                   then fold (\<lambda>iLoc acc.
                               let i = ColShift pq + iLoc * ColStride A
                               in if i > j
                                  then ((fst acc)[j := fst acc ! j + Abs (GetLocal A pq iLoc jLoc)],
                                        (snd acc)[i - 1 := snd acc ! (i - 1) + Abs (GetLocal A pq iLoc jLoc)])
                                  else acc)
                          is acc
                   else acc)
               = fold (\<lambda>iLoc. ?body (jLoc, iLoc)) is acc" for jLoc "is" acc
    by (induction "is" arbitrary: acc) (auto simp: LocalEntry_def Let_def)
  have "LocalSums A n pq acc
          = fold (\<lambda>jLoc acc. fold (\<lambda>iLoc. ?body (jLoc, iLoc)) [0..<LocalHeight A pq] acc)
              [0..<LocalWidth A pq] acc"
    unfolding LocalSums_def Let_def using inner [unfolded Let_def] by simp
  also have "\<dots> = fold (\<lambda>xy. ?body (fst xy, snd xy)) (List.product [0..<LocalWidth A pq] [0..<LocalHeight A pq]) acc"
    by (rule fold_nested)
  finally show ?thesis by simp
qed


lemma LocalSums_nth:
  assumes "m < len"
  shows "fst (LocalSums A n pq (replicate len 0, replicate len 0)) ! m
         = (\<Sum>jLoc = 0..<LocalWidth A pq. \<Sum>iLoc = 0..<LocalHeight A pq.
              (let j = RowShift pq + jLoc * RowStride A; i = ColShift pq + iLoc * ColStride A
               in if j < n - 1 \<and> i > j \<and> j = m then Abs (Get (Global A) i j) else 0))"
    and "snd (LocalSums A n pq (replicate len 0, replicate len 0)) ! m
         = (\<Sum>jLoc = 0..<LocalWidth A pq. \<Sum>iLoc = 0..<LocalHeight A pq.
              (let j = RowShift pq + jLoc * RowStride A; i = ColShift pq + iLoc * ColStride A
               in if j < n - 1 \<and> i > j \<and> i - 1 = m then Abs (Get (Global A) i j) else 0))"
proof -
  let ?c = "\<lambda>x. fst (LocalEntry A n pq x)"
  let ?j = "\<lambda>x. fst (snd (LocalEntry A n pq x))"
  let ?i1 = "\<lambda>x. fst (snd (snd (LocalEntry A n pq x)))"
  let ?a = "\<lambda>x. snd (snd (snd (LocalEntry A n pq x)))"
  let ?xs = "List.product [0..<LocalWidth A pq] [0..<LocalHeight A pq]"
  let ?f = "\<lambda>x cs. if ?c x then cs[?j x := cs ! ?j x + ?a x] else cs"
  let ?g = "\<lambda>x rs. if ?c x then rs[?i1 x := rs ! ?i1 x + ?a x] else rs"
  have "LocalSums A n pq (replicate len 0, replicate len 0)
          = fold (\<lambda>x acc. (?f x (fst acc), ?g x (snd acc))) ?xs (replicate len 0, replicate len 0)"
    by (simp add: LocalSums_flat case_prod_beta)
  also have "\<dots> = (fold ?f ?xs (replicate len 0), fold ?g ?xs (replicate len 0))"
    by (rule fold_pair)
  finally have split: "LocalSums A n pq (replicate len 0, replicate len 0)
          = (fold ?f ?xs (replicate len 0), fold ?g ?xs (replicate len 0))" .
  have "fold ?f ?xs (replicate len 0) ! m
          = replicate len 0 ! m + sum_list (map (\<lambda>x. if ?c x \<and> ?j x = m then ?a x else 0) ?xs)"
    by (rule accumulate_where) (use assms in simp)
  then show "fst (LocalSums A n pq (replicate len 0, replicate len 0)) ! m
         = (\<Sum>jLoc = 0..<LocalWidth A pq. \<Sum>iLoc = 0..<LocalHeight A pq.
              (let j = RowShift pq + jLoc * RowStride A; i = ColShift pq + iLoc * ColStride A
               in if j < n - 1 \<and> i > j \<and> j = m then Abs (Get (Global A) i j) else 0))"
    using assms
    by (simp add: split sum_list_product interv_sum_list_conv_sum_set_nat LocalEntry_def Let_def
        GetLocal_def cong: if_cong)
  have "fold ?g ?xs (replicate len 0) ! m
          = replicate len 0 ! m + sum_list (map (\<lambda>x. if ?c x \<and> ?i1 x = m then ?a x else 0) ?xs)"
    by (rule accumulate_where) (use assms in simp)
  then show "snd (LocalSums A n pq (replicate len 0, replicate len 0)) ! m
         = (\<Sum>jLoc = 0..<LocalWidth A pq. \<Sum>iLoc = 0..<LocalHeight A pq.
              (let j = RowShift pq + jLoc * RowStride A; i = ColShift pq + iLoc * ColStride A
               in if j < n - 1 \<and> i > j \<and> i - 1 = m then Abs (Get (Global A) i j) else 0))"
    using assms
    by (simp add: split sum_list_product interv_sum_list_conv_sum_set_nat LocalEntry_def Let_def
        GetLocal_def cong: if_cong)
qed

lemma AllReduce_nth:
  assumes "m < count"
  shows "AllReduce bufs count ! m = sum_list (map (\<lambda>buf. buf ! m) bufs)"
  using assms by (simp add: AllReduce_def)

lemma grid_sum:
  fixes g :: "nat \<Rightarrow> nat \<Rightarrow> real"
  assumes "0 < r" "0 < c"
  shows "(\<Sum>p = 0..<r. \<Sum>q = 0..<c. \<Sum>jLoc = 0..<LocalLength w q c. \<Sum>iLoc = 0..<LocalLength h p r.
            g (p + iLoc * r) (q + jLoc * c))
         = (\<Sum>i = 0..<h. \<Sum>j = 0..<w. g i j)"
proof -
  have cols: "(\<Sum>q = 0..<c. \<Sum>jLoc = 0..<LocalLength w q c. F (q + jLoc * c)) = (\<Sum>j = 0..<w. F j)"
    for F :: "nat \<Rightarrow> real"
    by (rule cyclic_sum [OF assms(2)])
  have "(\<Sum>p = 0..<r. \<Sum>q = 0..<c. \<Sum>jLoc = 0..<LocalLength w q c. \<Sum>iLoc = 0..<LocalLength h p r.
            g (p + iLoc * r) (q + jLoc * c))
        = (\<Sum>p = 0..<r. \<Sum>j = 0..<w. \<Sum>iLoc = 0..<LocalLength h p r. g (p + iLoc * r) j)"
    by (simp add: cols [where F = "\<lambda>j. \<Sum>iLoc = 0..<LocalLength h p r. g (p + iLoc * r) j" for p])
  also have "\<dots> = (\<Sum>p = 0..<r. \<Sum>iLoc = 0..<LocalLength h p r. \<Sum>j = 0..<w. g (p + iLoc * r) j)"
    by (intro sum.cong refl sum.swap)
  also have "\<dots> = (\<Sum>i = 0..<h. \<Sum>j = 0..<w. g i j)"
    by (rule cyclic_sum [OF assms(1), where n = h and f = "\<lambda>i. \<Sum>j = 0..<w. g i j"])
  finally show ?thesis .
qed


lemma below_diagonal_column:
  fixes a :: "nat \<Rightarrow> nat \<Rightarrow> real"
  assumes "m < n - 1"
  shows "(\<Sum>i = 0..<n. \<Sum>j = 0..<n. if j < n - 1 \<and> i > j \<and> j = m then a i j else 0)
         = (\<Sum>i = m + 1..<n. a i m)"
proof -
  have "(\<Sum>j = 0..<n. if j < n - 1 \<and> i > j \<and> j = m then a i j else 0)
          = (if m < i then a i m else 0)" for i
  proof -
    have "(\<Sum>j = 0..<n. if j < n - 1 \<and> i > j \<and> j = m then a i j else 0)
            = (\<Sum>j = 0..<n. if m = j then (if m < i then a i m else 0) else 0)"
      using assms by (intro sum.cong) auto
    also have "\<dots> = (if m < i then a i m else 0)" using assms by auto
    finally show ?thesis .
  qed
  then have "(\<Sum>i = 0..<n. \<Sum>j = 0..<n. if j < n - 1 \<and> i > j \<and> j = m then a i j else 0)
          = (\<Sum>i = 0..<n. if m < i then a i m else 0)"
    by simp
  also have "\<dots> = (\<Sum>i = m + 1..<n. a i m)"
    by (rule sum.mono_neutral_cong_right) auto
  finally show ?thesis .
qed

lemma left_of_diagonal_row:
  fixes a :: "nat \<Rightarrow> nat \<Rightarrow> real"
  assumes "m < n - 2"
  shows "(\<Sum>i = 0..<n. \<Sum>j = 0..<n. if j < n - 1 \<and> i > j \<and> i - 1 = m then a i j else 0)
         = (\<Sum>j = 0..<m + 1. a (m + 1) j)"
proof -
  have "(\<Sum>j = 0..<n. if j < n - 1 \<and> i > j \<and> i - 1 = m then a i j else 0)
          = (if m + 1 = i then (\<Sum>j = 0..<n. if j < m + 1 then a (m + 1) j else 0) else 0)" for i
  proof (cases "m + 1 = i")
    case True
    then show ?thesis using assms by (auto intro!: sum.cong)
  next
    case False
    then have "(\<Sum>j = 0..<n. if j < n - 1 \<and> i > j \<and> i - 1 = m then a i j else 0) = 0"
      by (intro sum.neutral) auto
    then show ?thesis using False by simp
  qed
  then have "(\<Sum>i = 0..<n. \<Sum>j = 0..<n. if j < n - 1 \<and> i > j \<and> i - 1 = m then a i j else 0)
          = (\<Sum>i = 0..<n. if m + 1 = i then (\<Sum>j = 0..<n. if j < m + 1 then a (m + 1) j else 0) else 0)"
    by simp
  also have "\<dots> = (\<Sum>j = 0..<n. if j < m + 1 then a (m + 1) j else 0)"
    using assms by simp
  also have "\<dots> = (\<Sum>j = 0..<m + 1. a (m + 1) j)"
    by (rule sum.mono_neutral_cong_right) (use assms in auto)
  finally show ?thesis .
qed

lemma Distributed_sums:
  assumes "0 < GridHeight A" "0 < GridWidth A" "Width (Global A) = Height (Global A)"
  defines "n \<equiv> Height (Global A)"
  defines "locals \<equiv> map (\<lambda>pq. LocalSums A n pq (replicate (n - 1) 0, replicate (n - 1) 0)) (Processes A)"
  shows "m < n - 1 \<Longrightarrow> AllReduce (map fst locals) (n - 1) ! m = (\<Sum>i = m + 1..<n. Abs (Get (Global A) i m))"
    and "m < n - 2 \<Longrightarrow> AllReduce (map snd locals) (n - 1) ! m = (\<Sum>j = 0..<m + 1. Abs (Get (Global A) (m + 1) j))"
proof -
  let ?r = "GridHeight A" and ?c = "GridWidth A"
  have total: "sum_list (map (\<lambda>pq. F pq) (Processes A)) = (\<Sum>p = 0..<?r. \<Sum>q = 0..<?c. F (p, q))"
    for F :: "nat \<times> nat \<Rightarrow> real"
    by (simp add: Processes_def sum_list_product interv_sum_list_conv_sum_set_nat)
  {
    assume m: "m < n - 1"
    let ?g = "\<lambda>i j. if j < n - 1 \<and> i > j \<and> j = m then Abs (Get (Global A) i j) else 0"
    have "AllReduce (map fst locals) (n - 1) ! m
            = sum_list (map (\<lambda>pq. fst (LocalSums A n pq (replicate (n - 1) 0, replicate (n - 1) 0)) ! m)
                 (Processes A))"
      using m by (simp add: AllReduce_nth locals_def comp_def)
    also have "\<dots> = (\<Sum>p = 0..<?r. \<Sum>q = 0..<?c. \<Sum>jLoc = 0..<LocalLength n q ?c.
                        \<Sum>iLoc = 0..<LocalLength n p ?r. ?g (p + iLoc * ?r) (q + jLoc * ?c))"
      using m assms(3)
      by (simp add: total LocalSums_nth(1) LocalWidth_def LocalHeight_def RowShift_def ColShift_def
          RowStride_def ColStride_def Let_def n_def cong: if_cong)
    also have "\<dots> = (\<Sum>i = 0..<n. \<Sum>j = 0..<n. ?g i j)"
      by (rule grid_sum [OF assms(1,2)])
    also have "\<dots> = (\<Sum>i = m + 1..<n. Abs (Get (Global A) i m))"
      by (rule below_diagonal_column [OF m])
    finally show "AllReduce (map fst locals) (n - 1) ! m = (\<Sum>i = m + 1..<n. Abs (Get (Global A) i m))" .
  }
  {
    assume m: "m < n - 2"
    let ?g = "\<lambda>i j. if j < n - 1 \<and> i > j \<and> i - 1 = m then Abs (Get (Global A) i j) else 0"
    have "AllReduce (map snd locals) (n - 1) ! m
            = sum_list (map (\<lambda>pq. snd (LocalSums A n pq (replicate (n - 1) 0, replicate (n - 1) 0)) ! m)
                 (Processes A))"
      using m by (simp add: AllReduce_nth locals_def comp_def)
    also have "\<dots> = (\<Sum>p = 0..<?r. \<Sum>q = 0..<?c. \<Sum>jLoc = 0..<LocalLength n q ?c.
                        \<Sum>iLoc = 0..<LocalLength n p ?r. ?g (p + iLoc * ?r) (q + jLoc * ?c))"
      using m assms(3)
      by (simp add: total LocalSums_nth(2) LocalWidth_def LocalHeight_def RowShift_def ColShift_def
          RowStride_def ColStride_def Let_def n_def cong: if_cong)
    also have "\<dots> = (\<Sum>i = 0..<n. \<Sum>j = 0..<n. ?g i j)"
      by (rule grid_sum [OF assms(1,2)])
    also have "\<dots> = (\<Sum>j = 0..<m + 1. Abs (Get (Global A) (m + 1) j))"
      by (rule left_of_diagonal_row [OF m])
    finally show "AllReduce (map snd locals) (n - 1) ! m = (\<Sum>j = 0..<m + 1. Abs (Get (Global A) (m + 1) j))" .
  }
qed

lemma NormStep_rowSums_cong:
  assumes "rs ! (j - 1) = rs' ! (j - 1)"
  shows "NormStep cs rs j st = NormStep cs rs' j st"
  using assms by (simp add: NormStep_def)

lemma NormScan_rowSums_cong:
  assumes "\<forall>k<n - 2. rs ! k = rs' ! k"
  shows "NormScan cs rs n = NormScan cs rs' n"
proof -
  have "fold (NormStep cs rs) js st = fold (NormStep cs rs') js st"
    if "\<forall>j \<in> set js. 0 < j \<and> j < n - 1" for js st
    using that
  proof (induction js arbitrary: st)
    case Nil
    then show ?case by simp
  next
    case (Cons j js)
    have "j - 1 < n - 2" using Cons.prems by auto
    then have "NormStep cs rs j st = NormStep cs rs' j st"
      using assms by (intro NormStep_rowSums_cong) simp
    then show ?case using Cons by simp
  qed
  then have "fold (NormStep cs rs) [1..<n - 1] st = fold (NormStep cs rs') [1..<n - 1] st" for st
    by simp
  then show ?thesis by (simp add: NormScan_def Let_def)
qed

lemma RowSums_length: "length (RowSums A n rs) = length rs"
proof -
  have "length (fold (\<lambda>i rs. fold (\<lambda>j rs. rs[i - 1 := rs ! (i - 1) + Abs (Get A i j)]) [0..<i] rs) is rs)
        = length rs" for "is"
    by (induction "is" arbitrary: rs) (auto simp: ColumnSums_inner_length)
  then show ?thesis by (simp add: RowSums_def)
qed

lemma ComputePartitionDist_eq_ComputePartition:
  assumes "2 \<le> Height G" "Width G = Height G" "0 < r" "0 < c"
  shows "ComputePartitionDist \<lparr>Global = G, GridHeight = r, GridWidth = c\<rparr> = ComputePartition G"
proof -
  let ?A = "\<lparr>Global = G, GridHeight = r, GridWidth = c\<rparr>"
  let ?n = "Height G"
  let ?locals = "map (\<lambda>pq. LocalSums ?A ?n pq (replicate (?n - 1) 0, replicate (?n - 1) 0)) (Processes ?A)"
  let ?cs = "ColumnSums G ?n (replicate (?n - 1) 0)" and ?rs = "RowSums G ?n (replicate (?n - 1) 0)"
  let ?dcs = "AllReduce (map fst ?locals) (?n - 1)" and ?drs = "AllReduce (map snd ?locals) (?n - 1)"
  have g: "0 < GridHeight ?A" "0 < GridWidth ?A" "Width (Global ?A) = Height (Global ?A)"
    using assms by simp_all
  have "?dcs ! m = ?cs ! m" if "m < ?n - 1" for m
    using Distributed_sums(1) [OF g, of m] ColumnSums_nth [OF that, of G] that by simp
  then have cs: "?dcs = ?cs"
    by (simp add: list_eq_iff_nth_eq AllReduce_length ColumnSums_length)
  have rs: "\<forall>k<?n - 2. ?drs ! k = ?rs ! k"
    using Distributed_sums(2) [OF g] RowSums_nth [of _ ?n G] by simp
  have "NormScan ?dcs ?drs ?n = NormScan ?cs ?rs ?n"
    using NormScan_rowSums_cong [OF rs] cs by simp
  then show ?thesis
    using assms(1) by (simp add: ComputePartitionDist_def ComputePartition_def Let_def)
qed

text \<open>
  C8. For \<open>n \<ge> 2\<close> the two overloads return the same pair (the lemma above, in exact
  arithmetic, on every grid). On the \<open>0 \<times> 0\<close> matrix they differ: the distributed
  overload returns the sentinel, the sequential overload leaves through \<^verbatim>\<open>return;\<close>
  and returns no value.
\<close>

theorem ComputePartition_overloads_differ_on_empty:
  "ComputePartitionOf Sequential (EmptyMatrix :: real Matrix) = Inl NoReturnValue
   \<and> ComputePartitionOf (Distributed 2 2) (EmptyMatrix :: real Matrix)
       = Inr \<lparr>value = Finite (- 1), index = - 1\<rparr>
   \<and> ComputePartitionOf (Distributed 2 2) coupled3 = ComputePartitionOf Sequential coupled3"
proof -
  have "2 \<le> Height coupled3" "Width coupled3 = Height coupled3" by code_simp+
  then have "ComputePartitionOf (Distributed 2 2) coupled3 = ComputePartitionOf Sequential coupled3"
    using ComputePartitionDist_eq_ComputePartition [of coupled3 2 2]
    by (simp add: ComputePartitionOf_def)
  then show ?thesis
    by (simp add: ComputePartitionOf_def ComputePartition_def ComputePartitionDist_def EmptyMatrix_def)
qed

section \<open>Properties of RandomizedSignDivide\<close>

lemma RSDAttempt_saves_A:
  assumes "RSDAttempt K ovl returnQ n oneA S st = Inr (st', part)"
  shows "stV st' = stA st"
  using assms
  by (auto simp: RSDAttempt_def Let_def split: prod.splits sum.splits if_splits)

lemma RSDAttempt_part:
  assumes "RSDAttempt K ovl returnQ n oneA S st = Inr (st', part)"
  shows "stPart st' = Some part"
  using assms
  by (auto simp: RSDAttempt_def Let_def split: prod.splits sum.splits if_splits)

lemma RSDHead_A:
  "RSDHead K ovl returnQ n oneA S j st0 = Inr s \<Longrightarrow> stA s = stA st0"
proof (induction j arbitrary: s)
  case 0
  then show ?case by simp
next
  case (Suc j)
  then show ?case
    by (auto split: sum.splits prod.splits dest: RSDAttempt_saves_A)
qed

lemma RSDLoop_from_head:
  assumes "int j < maxIts" "RSDHead K ovl returnQ n oneA S j st0 = Inr s"
  shows "\<exists>k. j \<le> k \<and> int k < maxIts
            \<and> (\<forall>i. j \<le> i \<and> i < k \<longrightarrow> RSDRejected K ovl returnQ n oneA S relTol i st0)
            \<and> (case RSDNth K ovl returnQ n oneA S k st0 of
                 Inl e \<Rightarrow> RSDLoop K ovl returnQ n oneA S relTol maxIts j s = Inl e
               | Inr (s', part) \<Rightarrow>
                   RSDLoop K ovl returnQ n oneA S relTol maxIts j s = Inr s'
                   \<and> (AtMost (value part) relTol \<or> int k = maxIts - 1))"
  using assms
proof (induction "nat (maxIts - int j)" arbitrary: j s rule: less_induct)
  case less
  note unroll = RSDLoop.simps [of K ovl returnQ n oneA S relTol maxIts j s]
  have nth: "RSDNth K ovl returnQ n oneA S j st0 = RSDAttempt K ovl returnQ n oneA S s"
    using less.prems(2) by (simp add: RSDNth_def)
  show ?case
  proof (cases "RSDAttempt K ovl returnQ n oneA S s")
    case (Inl e)
    then have "RSDLoop K ovl returnQ n oneA S relTol maxIts j s = Inl e"
      using unroll less.prems(1) by simp
    then show ?thesis
      using nth Inl less.prems(1) by (intro exI [of _ j]) auto
  next
    case (Inr r)
    obtain s' part where r: "r = (s', part)" by (cases r)
    show ?thesis
    proof (cases "AtMost (value part) relTol \<or> int j = maxIts - 1")
      case True
      then have "RSDLoop K ovl returnQ n oneA S relTol maxIts j s = Inr s'"
        using unroll less.prems(1) Inr r by simp
      then show ?thesis
        using nth Inr r True less.prems(1) by (intro exI [of _ j]) auto
    next
      case False
      then have loop: "RSDLoop K ovl returnQ n oneA S relTol maxIts j s
                  = RSDLoop K ovl returnQ n oneA S relTol maxIts (Suc j) (s'\<lparr>stA := stV s'\<rparr>)"
        using unroll less.prems(1) Inr r by simp
      have lt: "int (Suc j) < maxIts" using False less.prems(1) by simp
      have hd: "RSDHead K ovl returnQ n oneA S (Suc j) st0 = Inr (s'\<lparr>stA := stV s'\<rparr>)"
        using less.prems(2) Inr r by simp
      have rej: "RSDRejected K ovl returnQ n oneA S relTol j st0"
        using nth Inr r False by (simp add: RSDRejected_def)
      have "nat (maxIts - int (Suc j)) < nat (maxIts - int j)" using lt by simp
      from less.hyps [OF this lt hd]
      obtain k where k: "Suc j \<le> k" "int k < maxIts"
        "\<forall>i. Suc j \<le> i \<and> i < k \<longrightarrow> RSDRejected K ovl returnQ n oneA S relTol i st0"
        "case RSDNth K ovl returnQ n oneA S k st0 of
           Inl e \<Rightarrow> RSDLoop K ovl returnQ n oneA S relTol maxIts (Suc j) (s'\<lparr>stA := stV s'\<rparr>) = Inl e
         | Inr (s'', part) \<Rightarrow>
             RSDLoop K ovl returnQ n oneA S relTol maxIts (Suc j) (s'\<lparr>stA := stV s'\<rparr>) = Inr s''
             \<and> (AtMost (value part) relTol \<or> int k = maxIts - 1)"
        by blast
      have "\<forall>i. j \<le> i \<and> i < k \<longrightarrow> RSDRejected K ovl returnQ n oneA S relTol i st0"
        using k(3) rej by (metis Suc_leI le_neq_implies_less)
      then show ?thesis
        using k(1,2,4) loop by (intro exI [of _ k]) (auto simp: Suc_leD split: sum.splits prod.splits)
    qed
  qed
qed

lemma RandomizedSignDivide_unfold:
  "RandomizedSignDivide K ovl A G returnQ maxIts relTol rng =
     (case RSDLoop K ovl returnQ (Height A) (OneNorm K A) (RSDProjector K G)
             (RSDTolerance K A relTol) maxIts 0 (RSDInitial A G rng) of
        Inl e \<Rightarrow> Inl e
      | Inr st \<Rightarrow>
          (case stPart st of
             None \<Rightarrow> Inl UninitializedResult
           | Some part \<Rightarrow> Inr (stA st, stG st, part, stRng st)))"
  by (simp add: RandomizedSignDivide_def RSDProjector_def RSDTolerance_def RSDInitial_def Let_def)

lemma RandomizedSignDivide_last_attempt:
  assumes "1 \<le> maxIts"
  shows "\<exists>k. int k < maxIts
          \<and> (\<forall>j<k. case RSDAttemptNo K ovl A G returnQ rng j of
                      Inl e \<Rightarrow> False
                    | Inr (s, part) \<Rightarrow> \<not> AtMost (value part) (RSDTolerance K A relTol))
          \<and> (case RSDAttemptNo K ovl A G returnQ rng k of
                Inl e \<Rightarrow> RandomizedSignDivide K ovl A G returnQ maxIts relTol rng = Inl e
              | Inr (s, part) \<Rightarrow>
                  RandomizedSignDivide K ovl A G returnQ maxIts relTol rng
                    = Inr (stA s, stG s, part, stRng s)
                  \<and> (AtMost (value part) (RSDTolerance K A relTol) \<or> int k = maxIts - 1))"
proof -
  let ?n = "Height A" and ?one = "OneNorm K A" and ?S = "RSDProjector K G"
  let ?tol = "RSDTolerance K A relTol" and ?st0 = "RSDInitial A G rng"
  have "int 0 < maxIts" using assms by simp
  moreover have "RSDHead K ovl returnQ ?n ?one ?S 0 ?st0 = Inr ?st0" by simp
  ultimately obtain k where k: "int k < maxIts"
    "\<forall>i. 0 \<le> i \<and> i < k \<longrightarrow> RSDRejected K ovl returnQ ?n ?one ?S ?tol i ?st0"
    "case RSDNth K ovl returnQ ?n ?one ?S k ?st0 of
       Inl e \<Rightarrow> RSDLoop K ovl returnQ ?n ?one ?S ?tol maxIts 0 ?st0 = Inl e
     | Inr (s', part) \<Rightarrow>
         RSDLoop K ovl returnQ ?n ?one ?S ?tol maxIts 0 ?st0 = Inr s'
         \<and> (AtMost (value part) ?tol \<or> int k = maxIts - 1)"
    using RSDLoop_from_head [of 0 maxIts K ovl returnQ ?n ?one ?S ?st0 ?st0 ?tol] by blast
  have rej: "\<forall>j<k. case RSDAttemptNo K ovl A G returnQ rng j of
                      Inl e \<Rightarrow> False
                    | Inr (s, part) \<Rightarrow> \<not> AtMost (value part) ?tol"
    using k(2) by (simp add: RSDRejected_def RSDAttemptNo_def)
  have fin: "case RSDAttemptNo K ovl A G returnQ rng k of
                Inl e \<Rightarrow> RandomizedSignDivide K ovl A G returnQ maxIts relTol rng = Inl e
              | Inr (s, part) \<Rightarrow>
                  RandomizedSignDivide K ovl A G returnQ maxIts relTol rng
                    = Inr (stA s, stG s, part, stRng s)
                  \<and> (AtMost (value part) ?tol \<or> int k = maxIts - 1)"
  proof (cases "RSDNth K ovl returnQ ?n ?one ?S k ?st0")
    case (Inl e)
    then show ?thesis
      using k(3) by (simp add: RSDAttemptNo_def RandomizedSignDivide_unfold)
  next
    case (Inr r)
    obtain s part where r: "r = (s, part)" by (cases r)
    have "stPart s = Some part"
      using Inr r by (auto simp: RSDNth_def split: sum.splits dest: RSDAttempt_part)
    then show ?thesis
      using k(3) Inr r by (simp add: RSDAttemptNo_def RandomizedSignDivide_unfold)
  qed
  show ?thesis using k(1) rej fin by blast
qed

text \<open>
  C2. Let \<open>maxIts \<ge> 1\<close>. \<^verbatim>\<open>RandomizedSignDivide\<close> is a total function: the loop
  counts \<open>it\<close> up to \<open>maxIts\<close> and ends. There is a last attempt, number \<open>k < maxIts\<close>
  (so at most \<open>maxIts\<close> attempts are made); every attempt before it found a value
  that is not within the tolerance (above it, or not a finite number); the last attempt
  is within the tolerance or is attempt number \<open>maxIts - 1\<close>; and the function
  returns what the last attempt computed. An error is returned only when
  \<^verbatim>\<open>ComputePartition\<close> fails inside the last attempt, never because the attempts
  are used up: when none of the \<open>maxIts\<close> attempts is within the tolerance the function
  returns the result of attempt number \<open>maxIts - 1\<close>. The tolerance is
  \<open>50 n \<epsilon>\<close> when \<open>relTol = 0\<close> is passed (the default).
\<close>

theorem RandomizedSignDivide_attempts:
  assumes "1 \<le> maxIts"
  shows "(\<exists>k. int k < maxIts
          \<and> (\<forall>j<k. case RSDAttemptNo K ovl A G returnQ rng j of
                      Inl e \<Rightarrow> False
                    | Inr (s, part) \<Rightarrow> \<not> AtMost (value part) (RSDTolerance K A relTol))
          \<and> (case RSDAttemptNo K ovl A G returnQ rng k of
                Inl e \<Rightarrow> RandomizedSignDivide K ovl A G returnQ maxIts relTol rng = Inl e
              | Inr (s, part) \<Rightarrow>
                  RandomizedSignDivide K ovl A G returnQ maxIts relTol rng
                    = Inr (stA s, stG s, part, stRng s)
                  \<and> (AtMost (value part) (RSDTolerance K A relTol) \<or> int k = maxIts - 1)))
       \<and> ((\<forall>j. int j < maxIts \<longrightarrow>
               (case RSDAttemptNo K ovl A G returnQ rng j of
                  Inl e \<Rightarrow> False
                | Inr (s, part) \<Rightarrow> \<not> AtMost (value part) (RSDTolerance K A relTol)))
           \<longrightarrow> (\<exists>s part. RSDAttemptNo K ovl A G returnQ rng (nat (maxIts - 1)) = Inr (s, part)
                  \<and> RandomizedSignDivide K ovl A G returnQ maxIts relTol rng
                      = Inr (stA s, stG s, part, stRng s)))
       \<and> RSDTolerance K A 0 = 50 * real (Height A) * MachineEpsilon K"
proof (intro conjI impI)
  show "\<exists>k. int k < maxIts
          \<and> (\<forall>j<k. case RSDAttemptNo K ovl A G returnQ rng j of
                      Inl e \<Rightarrow> False
                    | Inr (s, part) \<Rightarrow> \<not> AtMost (value part) (RSDTolerance K A relTol))
          \<and> (case RSDAttemptNo K ovl A G returnQ rng k of
                Inl e \<Rightarrow> RandomizedSignDivide K ovl A G returnQ maxIts relTol rng = Inl e
              | Inr (s, part) \<Rightarrow>
                  RandomizedSignDivide K ovl A G returnQ maxIts relTol rng
                    = Inr (stA s, stG s, part, stRng s)
                  \<and> (AtMost (value part) (RSDTolerance K A relTol) \<or> int k = maxIts - 1))"
    by (rule RandomizedSignDivide_last_attempt [OF assms])
next
  assume all: "\<forall>j. int j < maxIts \<longrightarrow>
               (case RSDAttemptNo K ovl A G returnQ rng j of
                  Inl e \<Rightarrow> False
                | Inr (s, part) \<Rightarrow> \<not> AtMost (value part) (RSDTolerance K A relTol))"
  obtain k where k: "int k < maxIts"
    "case RSDAttemptNo K ovl A G returnQ rng k of
                Inl e \<Rightarrow> RandomizedSignDivide K ovl A G returnQ maxIts relTol rng = Inl e
              | Inr (s, part) \<Rightarrow>
                  RandomizedSignDivide K ovl A G returnQ maxIts relTol rng
                    = Inr (stA s, stG s, part, stRng s)
                  \<and> (AtMost (value part) (RSDTolerance K A relTol) \<or> int k = maxIts - 1)"
    using RandomizedSignDivide_last_attempt [OF assms, where K = K and ovl = ovl and A = A and G = G and returnQ = returnQ and rng = rng and relTol = relTol] by blast
  from all k(1) obtain s part where sp: "RSDAttemptNo K ovl A G returnQ rng k = Inr (s, part)"
    "\<not> AtMost (value part) (RSDTolerance K A relTol)"
    by (fastforce split: sum.splits prod.splits)
  then have "int k = maxIts - 1"
    and "RandomizedSignDivide K ovl A G returnQ maxIts relTol rng = Inr (stA s, stG s, part, stRng s)"
    using k(2) by auto
  moreover from this have "k = nat (maxIts - 1)" by simp
  ultimately show "\<exists>s part. RSDAttemptNo K ovl A G returnQ rng (nat (maxIts - 1)) = Inr (s, part)
                  \<and> RandomizedSignDivide K ovl A G returnQ maxIts relTol rng
                      = Inr (stA s, stG s, part, stRng s)"
    using sp(1) by blast
next
  show "RSDTolerance K A 0 = 50 * real (Height A) * MachineEpsilon K"
    by (simp add: RSDTolerance_def)
qed

lemma lower2_partition: "ComputePartition lower2 = Inr \<lparr>value = Finite 1, index = 1\<rparr>"
  by code_simp

lemma lower2_Height: "Height lower2 = 2"
  by code_simp
lemma upper2_Height: "Height upper2 = 2"
  by code_simp

lemma upper2_OneNorm: "OneNormOf upper2 = 1"
  by code_simp

lemma exchange_attempt:
  assumes "stA st = upper2"
  shows "RSDAttempt exchangeKernels Sequential False 2 1 S st
   = Inr (st\<lparr>stA := lower2, stG := FlipCols S, stV := upper2, stT := EmptyMatrix,
             stRng := Suc (stRng st), stPart := Some \<lparr>value = Finite 1, index = 1\<rparr>\<rparr>,
          \<lparr>value = Finite 1, index = 1\<rparr>)"
  using assms lower2_partition
  by (simp add: RSDAttempt_def exchangeKernels_def Let_def ComputePartitionOf_def lower2_def)

lemma exchange_head:
  "\<exists>s. RSDHead exchangeKernels Sequential False 2 1 S j (RSDInitial upper2 G rng) = Inr s \<and> stA s = upper2"
proof (induction j)
  case 0
  then show ?case by (simp add: RSDInitial_def)
next
  case (Suc j)
  then obtain s where s: "RSDHead exchangeKernels Sequential False 2 1 S j (RSDInitial upper2 G rng) = Inr s"
    "stA s = upper2" by blast
  show ?case using s exchange_attempt [OF s(2), of S] by simp
qed

lemma exchange_tolerance: "RSDTolerance exchangeKernels upper2 0 < 1"
proof -
  have "(100::real) < 2 ^ 52" by simp
  then show ?thesis by (simp add: RSDTolerance_def upper2_Height exchangeKernels_def)
qed

lemma exchange_rejected:
  "case RSDAttemptNo exchangeKernels Sequential upper2 G False rng j of
     Inl e \<Rightarrow> False
   | Inr (s, part) \<Rightarrow> \<not> AtMost (value part) (RSDTolerance exchangeKernels upper2 0)"
proof -
  have one: "OneNorm exchangeKernels upper2 = 1" by (simp add: exchangeKernels_def upper2_OneNorm)
  obtain s where s: "RSDHead exchangeKernels Sequential False 2 1 (RSDProjector exchangeKernels G) j
                        (RSDInitial upper2 G rng) = Inr s" "stA s = upper2"
    using exchange_head by blast
  show ?thesis
    using s exchange_attempt [OF s(2)] exchange_tolerance
    by (simp add: RSDAttemptNo_def RSDNth_def upper2_Height one)
qed

theorem RandomizedSignDivide_attempts_witness:
  "\<exists>s part. RSDAttemptNo exchangeKernels Sequential upper2 upper2 False 0 (nat (3 - 1)) = Inr (s, part)
     \<and> RandomizedSignDivide exchangeKernels Sequential upper2 upper2 False 3 0 0
         = Inr (stA s, stG s, part, stRng s)"
proof -
  have h: "(1::int) \<le> 3" by simp
  from RandomizedSignDivide_attempts [OF h, where K = exchangeKernels and ovl = Sequential
      and A = upper2 and G = upper2 and returnQ = False and rng = 0 and relTol = 0]
  show ?thesis using exchange_rejected by blast
qed

text \<open>
  C5. In a pass of the loop that is not the last (\<open>it \<noteq> maxIts - 1\<close>) and whose attempt
  found a value that is not within the tolerance, \<^verbatim>\<open>V\<close> holds the matrix \<^verbatim>\<open>A\<close> had when the
  pass started (it was saved before the similarity transform), and the loop goes on
  with the next pass from that same \<^verbatim>\<open>A\<close>. So every pass starts from the matrix
  the loop started with.
\<close>

theorem RandomizedSignDivide_retry_restores_A:
  "(\<forall>it st st' part.
       int it < maxIts \<and> RSDAttempt K ovl returnQ n oneA S st = Inr (st', part)
       \<and> \<not> AtMost (value part) relTol \<and> int it \<noteq> maxIts - 1
       \<longrightarrow> stV st' = stA st
           \<and> RSDLoop K ovl returnQ n oneA S relTol maxIts it st
               = RSDLoop K ovl returnQ n oneA S relTol maxIts (Suc it) (st'\<lparr>stA := stA st\<rparr>))
   \<and> (\<forall>j s. RSDHead K ovl returnQ n oneA S j st0 = Inr s \<longrightarrow> stA s = stA st0)"
proof (intro conjI allI impI)
  fix it st st' part
  assume a: "int it < maxIts \<and> RSDAttempt K ovl returnQ n oneA S st = Inr (st', part)
       \<and> \<not> AtMost (value part) relTol \<and> int it \<noteq> maxIts - 1"
  then show "stV st' = stA st" by (auto dest: RSDAttempt_saves_A)
  then show "RSDLoop K ovl returnQ n oneA S relTol maxIts it st
               = RSDLoop K ovl returnQ n oneA S relTol maxIts (Suc it) (st'\<lparr>stA := stA st\<rparr>)"
    using a RSDLoop.simps [of K ovl returnQ n oneA S relTol maxIts it st] by simp
next
  fix j s
  assume "RSDHead K ovl returnQ n oneA S j st0 = Inr s"
  then show "stA s = stA st0" by (rule RSDHead_A)
qed

theorem RandomizedSignDivide_retry_restores_A_witness:
  "RSDLoop exchangeKernels Sequential False 2 1 upper2 (1 / 2) 3 0 (RSDInitial upper2 upper2 0)
     = RSDLoop exchangeKernels Sequential False 2 1 upper2 (1 / 2) 3 (Suc 0)
         \<lparr>stA = upper2, stG = FlipCols upper2, stV = upper2, stB = EmptyMatrix, stT = EmptyMatrix,
          stPart = Some \<lparr>value = Finite 1, index = 1\<rparr>, stRng = Suc 0\<rparr>
   \<and> lower2 \<noteq> upper2"
proof -
  let ?st = "RSDInitial upper2 upper2 (0::nat)"
  let ?st' = "\<lparr>stA = lower2, stG = FlipCols upper2, stV = upper2, stB = EmptyMatrix, stT = EmptyMatrix,
          stPart = Some \<lparr>value = Finite 1, index = 1\<rparr>, stRng = Suc 0\<rparr>"
  have att: "RSDAttempt exchangeKernels Sequential False 2 1 upper2 ?st = Inr (?st', \<lparr>value = Finite 1, index = 1\<rparr>)"
    using exchange_attempt [of ?st upper2] by (simp add: RSDInitial_def)
  have hyp: "int 0 < 3 \<and> RSDAttempt exchangeKernels Sequential False 2 1 upper2 ?st = Inr (?st', \<lparr>value = Finite 1, index = 1\<rparr>)
       \<and> \<not> AtMost (value \<lparr>value = Finite 1, index = 1\<rparr>) (1 / 2) \<and> int 0 \<noteq> 3 - 1"
    using att by simp
  have ne: "lower2 \<noteq> upper2"
  proof
    assume "lower2 = upper2"
    then have "Entry lower2 1 0 = Entry upper2 1 0" by simp
    then show False by (simp add: lower2_def upper2_def FlipCols_def FlipRows_def FromRows_def)
  qed
  from RandomizedSignDivide_retry_restores_A [where maxIts = 3 and K = exchangeKernels and ovl = Sequential
      and returnQ = False and n = 2 and oneA = 1 and S = upper2 and relTol = "1 / 2" and ?st0.0 = ?st]
  have "stV ?st' = stA ?st
     \<and> RSDLoop exchangeKernels Sequential False 2 1 upper2 (1 / 2) 3 0 ?st
         = RSDLoop exchangeKernels Sequential False 2 1 upper2 (1 / 2) 3 (Suc 0) (?st'\<lparr>stA := stA ?st\<rparr>)"
    using hyp by blast
  then show ?thesis using ne by (simp add: RSDInitial_def)
qed

section \<open>Properties of SpectralDivide\<close>

lemma SetDiagonal_restores:
  "SetDiagonal (SetDiagonalConst A alpha) (GetDiagonal A) = A"
  by (rule Matrix.equality) (simp_all add: SetDiagonal_def SetDiagonalConst_def GetDiagonal_def OnDiagonal_def fun_eq_iff)

lemma UpdateDiagonal_entries:
  "UpdateDiagonal (A :: ('f::plus) Matrix) shift
     = \<lparr>Height = Height A, Width = Width A,
        Entry = (\<lambda>i j. if OnDiagonal A i j then Entry A i j + shift else Entry A i j)\<rparr>"
  by (rule Matrix.equality) (simp_all add: UpdateDiagonal_def)

text \<open>
  C7. Every overload of \<^verbatim>\<open>SpectralDivide\<close> calls \<^verbatim>\<open>RandomizedSignDivide\<close> with
  \<^item> the matrix \<^verbatim>\<open>A\<close> it was given: the diagonal that was set to zero for the
    measurement of the norm is back;
  \<^item> a generator that has the height and the width of \<^verbatim>\<open>A\<close> and the entries of
    \<^verbatim>\<open>A\<close> with the shift added on the diagonal, every entry multiplied by
    \<open>cos \<theta> + i sin \<theta>\<close> in the complex overloads, a number of modulus 1;
  \<^item> the shift being the draw of \<^verbatim>\<open>SampleBall\<close> for the centre \<open>- trace(A)/n\<close> and the
    radius \<open>0.001\<close> times the infinity norm of \<^verbatim>\<open>A\<close> with its diagonal set to zero, and
    the angle the draw of \<^verbatim>\<open>Uniform\<close> on \<open>[0, 2\<pi>]\<close>.
  That the draws are uniform is the contract of the two generators.
\<close>

theorem SpectralDivide_generator:
  "SpectralDivide K ovl A rng =
     (case SampleBall K (- (Trace K A / real (Height A)))
             (0.001 * InfinityNorm K (SetDiagonalConst A 0)) rng of
        (shift, rng1) \<Rightarrow>
          (case RandomizedSignDivide K ovl A
                  \<lparr>Height = Height A, Width = Width A,
                   Entry = (\<lambda>i j. if OnDiagonal A i j then Entry A i j + shift else Entry A i j)\<rparr>
                  False 10 0 rng1 of
             Inl e \<Rightarrow> Inl e
           | Inr (A', G', part, rng') \<Rightarrow> Inr (A', part, rng')))
   \<and> SpectralDivideQ K ovl A Q rng =
     (case SampleBall K (- (Trace K A / real (Height A)))
             (0.001 * InfinityNorm K (SetDiagonalConst A 0)) rng of
        (shift, rng1) \<Rightarrow>
          RandomizedSignDivide K ovl A
            \<lparr>Height = Height A, Width = Width A,
             Entry = (\<lambda>i j. if OnDiagonal A i j then Entry A i j + shift else Entry A i j)\<rparr>
            True 10 0 rng1)
   \<and> SpectralDivideComplex Kc ovl Ac rngc =
     (case SampleBall Kc (- (Trace Kc Ac / of_nat (Height Ac)))
             (0.001 * InfinityNorm Kc (SetDiagonalConst Ac 0)) rngc of
        (shift, rng1) \<Rightarrow>
          (case Uniform Kc 0 (2 * pi) rng1 of
             (angle, rng2) \<Rightarrow>
               (case RandomizedSignDivide Kc ovl Ac
                       \<lparr>Height = Height Ac, Width = Width Ac,
                        Entry = (\<lambda>i j. Complex (cos angle) (sin angle)
                                   * (if OnDiagonal Ac i j then Entry Ac i j + shift else Entry Ac i j))\<rparr>
                       False 10 0 rng2 of
                  Inl e \<Rightarrow> Inl e
                | Inr (A', G', part, rng') \<Rightarrow> Inr (A', part, rng'))))
   \<and> SpectralDivideComplexQ Kc ovl Ac Qc rngc =
     (case SampleBall Kc (- (Trace Kc Ac / of_nat (Height Ac)))
             (0.001 * InfinityNorm Kc (SetDiagonalConst Ac 0)) rngc of
        (shift, rng1) \<Rightarrow>
          (case Uniform Kc 0 (2 * pi) rng1 of
             (angle, rng2) \<Rightarrow>
               RandomizedSignDivide Kc ovl Ac
                 \<lparr>Height = Height Ac, Width = Width Ac,
                  Entry = (\<lambda>i j. Complex (cos angle) (sin angle)
                             * (if OnDiagonal Ac i j then Entry Ac i j + shift else Entry Ac i j))\<rparr>
                 True 10 0 rng2))
   \<and> cmod (Complex (cos angle) (sin angle)) = 1"
proof (intro conjI)
  show "cmod (Complex (cos angle) (sin angle)) = 1" by (simp add: cmod_def)
qed (simp_all add: SpectralDivide_def SpectralDivideQ_def SpectralDivideComplex_def
      SpectralDivideComplexQ_def Let_def SetDiagonal_restores UpdateDiagonal_entries
      Scale_def split: prod.splits cong: if_cong)


lemma RSDAttempt_returnQ:
  assumes "RSDAttempt K ovl True n oneA S st = Inr (st', part)"
  shows "stG st' = (case RSDFactorize K n S (stRng st) of (G, t) \<Rightarrow> ExpandPackedReflectors K G t)
       \<and> stA st' = Gemm K NORMAL NORMAL 1 (Gemm K ADJOINT NORMAL 1 (stG st') (stA st)) (stG st')"
  using assms
  by (auto simp: RSDAttempt_def RSDFactorize_def Let_def split: prod.splits sum.splits)

lemma RandomizedSignDivide_returnQ:
  assumes "1 \<le> maxIts"
    and "RandomizedSignDivide K ovl A G True maxIts relTol rng = Inr (A', G', part, rng')"
  shows "\<exists>k s. int k < maxIts
           \<and> RSDHead K ovl True (Height A) (OneNorm K A) (RSDProjector K G) k (RSDInitial A G rng) = Inr s
           \<and> G' = (case RSDFactorize K (Height A) (RSDProjector K G) (stRng s) of
                      (G, t) \<Rightarrow> ExpandPackedReflectors K G t)
           \<and> A' = Gemm K NORMAL NORMAL 1 (Gemm K ADJOINT NORMAL 1 G' A) G'"
proof -
  let ?n = "Height A" and ?one = "OneNorm K A" and ?S = "RSDProjector K G" and ?st0 = "RSDInitial A G rng"
  obtain k where k: "int k < maxIts"
    "case RSDAttemptNo K ovl A G True rng k of
       Inl e \<Rightarrow> RandomizedSignDivide K ovl A G True maxIts relTol rng = Inl e
     | Inr (s, part) \<Rightarrow>
         RandomizedSignDivide K ovl A G True maxIts relTol rng = Inr (stA s, stG s, part, stRng s)
         \<and> (AtMost (value part) (RSDTolerance K A relTol) \<or> int k = maxIts - 1)"
    using RandomizedSignDivide_last_attempt [OF assms(1), where K = K and ovl = ovl and A = A
        and G = G and returnQ = True and rng = rng and relTol = relTol] by blast
  from k(2) assms(2) obtain s' p where s': "RSDAttemptNo K ovl A G True rng k = Inr (s', p)"
    "A' = stA s'" "G' = stG s'"
    by (auto split: sum.splits prod.splits)
  from s'(1) obtain s where s: "RSDHead K ovl True ?n ?one ?S k ?st0 = Inr s"
    "RSDAttempt K ovl True ?n ?one ?S s = Inr (s', p)"
    by (auto simp: RSDAttemptNo_def RSDNth_def split: sum.splits)
  have "stA s = A" using RSDHead_A [OF s(1)] by (simp add: RSDInitial_def)
  then show ?thesis
    using k(1) s(1) RSDAttempt_returnQ [OF s(2)] s'(2,3) by auto
qed

text \<open>
  C10. \<^verbatim>\<open>SpectralDivide(A, Q)\<close> returns the same whatever \<^verbatim>\<open>Q\<close> holds at entry, in
  the real and in the complex overload. When it returns, \<^verbatim>\<open>Q\<close> is what
  \<^verbatim>\<open>ExpandPackedReflectors\<close> made of the factorisation of the last attempt (one of
  at most ten), and \<^verbatim>\<open>A\<close> is the product \<open>Q\<^sup>H A Q\<close> of that \<^verbatim>\<open>Q\<close> with the
  matrix \<^verbatim>\<open>A\<close> of the entry, as \<^verbatim>\<open>Gemm\<close> computes it. That this \<^verbatim>\<open>Q\<close> is
  unitary is the contract of the kernels.
\<close>

theorem SpectralDivideQ_overwrites_Q:
  "SpectralDivideQ K ovl A Q rng = SpectralDivideQ K ovl A Q' rng
   \<and> SpectralDivideComplexQ Kc ovl Ac Qc rngc = SpectralDivideComplexQ Kc ovl Ac Qc' rngc
   \<and> (SpectralDivideQ K ovl A Q rng = Inr (A1, Q1, part, rng1)
        \<longrightarrow> (\<exists>G rng0 k s. int k < 10
               \<and> RSDHead K ovl True (Height A) (OneNorm K A) (RSDProjector K G) k
                     (RSDInitial A G rng0) = Inr s
               \<and> Q1 = (case RSDFactorize K (Height A) (RSDProjector K G) (stRng s) of
                          (G, t) \<Rightarrow> ExpandPackedReflectors K G t)
               \<and> A1 = Gemm K NORMAL NORMAL 1 (Gemm K ADJOINT NORMAL 1 Q1 A) Q1))
   \<and> (SpectralDivideComplexQ Kc ovl Ac Qc rngc = Inr (Ac1, Qc1, partc, rngc1)
        \<longrightarrow> (\<exists>G rng0 k s. int k < 10
               \<and> RSDHead Kc ovl True (Height Ac) (OneNorm Kc Ac) (RSDProjector Kc G) k
                     (RSDInitial Ac G rng0) = Inr s
               \<and> Qc1 = (case RSDFactorize Kc (Height Ac) (RSDProjector Kc G) (stRng s) of
                          (G, t) \<Rightarrow> ExpandPackedReflectors Kc G t)
               \<and> Ac1 = Gemm Kc NORMAL NORMAL 1 (Gemm Kc ADJOINT NORMAL 1 Qc1 Ac) Qc1))"
proof (intro conjI impI)
  show "SpectralDivideQ K ovl A Q rng = SpectralDivideQ K ovl A Q' rng"
    by (simp add: SpectralDivideQ_def)
  show "SpectralDivideComplexQ Kc ovl Ac Qc rngc = SpectralDivideComplexQ Kc ovl Ac Qc' rngc"
    by (simp add: SpectralDivideComplexQ_def)
next
  assume "SpectralDivideQ K ovl A Q rng = Inr (A1, Q1, part, rng1)"
  then obtain G rng0 where "RandomizedSignDivide K ovl A G True 10 0 rng0 = Inr (A1, Q1, part, rng1)"
    by (auto simp: SpectralDivideQ_def Let_def SetDiagonal_restores split: prod.splits)
  from RandomizedSignDivide_returnQ [OF _ this]
  show "\<exists>G rng0 k s. int k < 10
               \<and> RSDHead K ovl True (Height A) (OneNorm K A) (RSDProjector K G) k
                     (RSDInitial A G rng0) = Inr s
               \<and> Q1 = (case RSDFactorize K (Height A) (RSDProjector K G) (stRng s) of
                          (G, t) \<Rightarrow> ExpandPackedReflectors K G t)
               \<and> A1 = Gemm K NORMAL NORMAL 1 (Gemm K ADJOINT NORMAL 1 Q1 A) Q1"
    by fastforce
next
  assume "SpectralDivideComplexQ Kc ovl Ac Qc rngc = Inr (Ac1, Qc1, partc, rngc1)"
  then obtain G rng0 where "RandomizedSignDivide Kc ovl Ac G True 10 0 rng0 = Inr (Ac1, Qc1, partc, rngc1)"
    by (auto simp: SpectralDivideComplexQ_def Let_def SetDiagonal_restores split: prod.splits)
  from RandomizedSignDivide_returnQ [OF _ this]
  show "\<exists>G rng0 k s. int k < 10
               \<and> RSDHead Kc ovl True (Height Ac) (OneNorm Kc Ac) (RSDProjector Kc G) k
                     (RSDInitial Ac G rng0) = Inr s
               \<and> Qc1 = (case RSDFactorize Kc (Height Ac) (RSDProjector Kc G) (stRng s) of
                          (G, t) \<Rightarrow> ExpandPackedReflectors Kc G t)
               \<and> Ac1 = Gemm Kc NORMAL NORMAL 1 (Gemm Kc ADJOINT NORMAL 1 Qc1 Ac) Qc1"
    by fastforce
qed

lemma exchange_loop_returnQ:
  assumes "stA st = upper2" "tol < 1" "int it < maxIts" "Height S = 2"
  shows "RSDLoop exchangeKernels Sequential True 2 1 S tol maxIts it st
     = Inr (st\<lparr>stA := lower2, stG := ExchangeMatrix 2, stV := upper2, stB := FlipRows upper2,
              stT := EmptyMatrix, stRng := stRng st + nat (maxIts - int it),
              stPart := Some \<lparr>value = Finite 1, index = 1\<rparr>\<rparr>)"
  using assms
proof (induction "nat (maxIts - int it)" arbitrary: it st rule: less_induct)
  case less
  let ?st' = "st\<lparr>stA := lower2, stG := ExchangeMatrix 2, stV := upper2, stB := FlipRows upper2,
              stT := EmptyMatrix, stRng := Suc (stRng st), stPart := Some \<lparr>value = Finite 1, index = 1\<rparr>\<rparr>"
  have att: "RSDAttempt exchangeKernels Sequential True 2 1 S st = Inr (?st', \<lparr>value = Finite 1, index = 1\<rparr>)"
    using less.prems(1,4) lower2_partition
    by (simp add: RSDAttempt_def exchangeKernels_def Let_def ComputePartitionOf_def lower2_def FlipCols_def)
  note unroll = RSDLoop.simps [of exchangeKernels Sequential True 2 1 S tol maxIts it st]
  show ?case
  proof (cases "int it = maxIts - 1")
    case True
    then have "nat (maxIts - int it) = 1" by simp
    then show ?thesis using unroll att True less.prems(3) by simp
  next
    case False
    have lt: "int (Suc it) < maxIts" using False less.prems(3) by simp
    have dec: "nat (maxIts - int (Suc it)) < nat (maxIts - int it)" using lt by simp
    have A: "stA (?st'\<lparr>stA := stV ?st'\<rparr>) = upper2" by simp
    have cnt: "Suc (stRng st) + nat (maxIts - int (Suc it)) = stRng st + nat (maxIts - int it)"
      using lt by simp
    have "RSDLoop exchangeKernels Sequential True 2 1 S tol maxIts it st
            = RSDLoop exchangeKernels Sequential True 2 1 S tol maxIts (Suc it) (?st'\<lparr>stA := stV ?st'\<rparr>)"
      using unroll att False less.prems(2,3) by simp
    also have "\<dots> = Inr (st\<lparr>stA := lower2, stG := ExchangeMatrix 2, stV := upper2, stB := FlipRows upper2,
              stT := EmptyMatrix, stRng := stRng st + nat (maxIts - int it),
              stPart := Some \<lparr>value = Finite 1, index = 1\<rparr>\<rparr>)"
      using less.hyps [OF dec A less.prems(2) lt less.prems(4)] cnt by simp
    finally show ?thesis .
  qed
qed

lemma SpectralDivideQ_unfold:
  "SpectralDivideQ K ovl A Q rng =
     (case SampleBall K (- (Trace K A / real (Height A)))
             (0.001 * InfinityNorm K (SetDiagonalConst A 0)) rng of
        (shift, rng1) \<Rightarrow> RandomizedSignDivide K ovl A (UpdateDiagonal A shift) True 10 0 rng1)"
  by (simp add: SpectralDivideQ_def Let_def SetDiagonal_restores split: prod.splits)

lemma exchange_SpectralDivideQ:
  "SpectralDivideQ exchangeKernels Sequential upper2 Q 0
     = Inr (lower2, ExchangeMatrix 2, \<lparr>value = Finite 1, index = 1\<rparr>, 11)"
proof -
  let ?K = exchangeKernels
  obtain shift where sb: "SampleBall ?K (- (Trace ?K upper2 / real (Height upper2)))
             (0.001 * InfinityNorm ?K (SetDiagonalConst upper2 0)) 0 = (shift, Suc 0)"
    by (simp add: exchangeKernels_def)
  let ?G = "UpdateDiagonal upper2 shift"
  let ?st0 = "RSDInitial upper2 ?G (Suc 0)"
  have tol: "RSDTolerance ?K upper2 0 < 1"
  proof -
    have "(100::real) < 2 ^ 52" by simp
    then show ?thesis by (simp add: RSDTolerance_def upper2_Height exchangeKernels_def)
  qed
  have one: "OneNorm ?K upper2 = 1" by (simp add: exchangeKernels_def upper2_OneNorm)
  have hS: "Height (RSDProjector ?K ?G) = 2"
    by (simp add: RSDProjector_def exchangeKernels_def Scale_def UpdateDiagonal_def upper2_Height)
  have A0: "stA ?st0 = upper2" by (simp add: RSDInitial_def)
  have loop: "RSDLoop ?K Sequential True 2 1 (RSDProjector ?K ?G) (RSDTolerance ?K upper2 0) 10 0 ?st0
              = Inr (?st0\<lparr>stA := lower2, stG := ExchangeMatrix 2, stV := upper2,
                     stB := FlipRows upper2, stT := EmptyMatrix, stRng := stRng ?st0 + nat (10 - int 0),
                     stPart := Some \<lparr>value = Finite 1, index = 1\<rparr>\<rparr>)"
    by (rule exchange_loop_returnQ [OF A0 tol _ hS]) simp
  have "RandomizedSignDivide ?K Sequential upper2 ?G True 10 0 (Suc 0)
          = Inr (lower2, ExchangeMatrix 2, \<lparr>value = Finite 1, index = 1\<rparr>, 11)"
    by (simp add: RandomizedSignDivide_unfold upper2_Height one loop) (simp add: RSDInitial_def)
  then show ?thesis
    using sb by (simp add: SpectralDivideQ_unfold)
qed

theorem SpectralDivideQ_overwrites_Q_witness:
  "\<exists>G rng0 k s. int k < 10
     \<and> RSDHead exchangeKernels Sequential True (Height upper2) (OneNorm exchangeKernels upper2)
           (RSDProjector exchangeKernels G) k (RSDInitial upper2 G rng0) = Inr s
     \<and> ExchangeMatrix 2
         = (case RSDFactorize exchangeKernels (Height upper2) (RSDProjector exchangeKernels G) (stRng s) of
              (G, t) \<Rightarrow> ExpandPackedReflectors exchangeKernels G t)
     \<and> lower2 = Gemm exchangeKernels NORMAL NORMAL 1
                  (Gemm exchangeKernels ADJOINT NORMAL 1 (ExchangeMatrix 2) upper2) (ExchangeMatrix 2)"
proof -
  note T = SpectralDivideQ_overwrites_Q [where K = exchangeKernels and ovl = Sequential
      and A = upper2 and Q = EmptyMatrix and rng = 0 and ?A1.0 = lower2
      and ?Q1.0 = "ExchangeMatrix 2" and part = "\<lparr>value = Finite 1, index = 1\<rparr>" and ?rng1.0 = 11]
  show ?thesis
    by (rule mp [OF T [THEN conjunct2, THEN conjunct2, THEN conjunct1] exchange_SpectralDivideQ])
qed

section \<open>Properties of SDC and of the degenerate inputs\<close>


lemma ComputePartition_height_zero:
  assumes "Height A = 0"
  shows "ComputePartition A = Inl NoReturnValue"
    and "ComputePartitionOf (Distributed r c) A = Inr \<lparr>value = Finite (- 1), index = - 1\<rparr>"
  using assms
  by (simp_all add: ComputePartition_def ComputePartitionOf_def ComputePartitionDist_def)

text \<open>
  C6. In a call of the vector-forming \<^verbatim>\<open>SDC\<close> that splits (\<open>n > cutoff\<close>), let
  \<open>ATL, ATR, ABL, ABR\<close> and \<open>QL, QR\<close> be the blocks after the split, and let the
  recursive calls on \<open>ATL\<close> and \<open>ABR\<close> return the Schur vectors \<open>ZTL\<close> and \<open>ZBR\<close>.
  Then the call returns \<open>QL\<close> replaced by the product \<open>QL ZTL\<close>, \<open>QR\<close> by \<open>QR ZBR\<close>
  and, when \<^verbatim>\<open>formATR\<close> holds, \<open>ATR\<close> by \<open>(ZTL\<^sup>H ATR) ZBR\<close>, the products being
  those of \<^verbatim>\<open>Gemm\<close>; without \<^verbatim>\<open>formATR\<close> it leaves \<open>ATR\<close> as it is. This holds
  for the overload on \<^verbatim>\<open>Matrix\<close>, which updates between the two recursive calls and
  reuses \<^verbatim>\<open>Z\<close> and \<^verbatim>\<open>G\<close>, and for the overload on \<^verbatim>\<open>DistMatrix\<close>, which updates
  after both.
\<close>

theorem SDCVectors_stitch:
  assumes "\<not> int (Height A) \<le> cutoff"
  shows "SDCVectors (Suc fuel) split K A Q formATR cutoff rng =
     (case split A Q rng of
        Inl e \<Rightarrow> Inl e
      | Inr (A1, Q1, part, rng1) \<Rightarrow>
     (case PartitionDownDiagonal A1 (index part) of
        Inl e \<Rightarrow> Inl e
      | Inr (ATL, ATR, ABL, ABR) \<Rightarrow>
     (case PartitionRight Q1 (index part) of
        Inl e \<Rightarrow> Inl e
      | Inr (QL, QR) \<Rightarrow>
     (case SDCVectors fuel split K ATL EmptyMatrix formATR cutoff rng1 of
        Inl e \<Rightarrow> Inl e
      | Inr (ATL', ZTL, rng2) \<Rightarrow>
     (case SDCVectors fuel split K ABR ZTL formATR cutoff rng2 of
        Inl e \<Rightarrow> Inl e
      | Inr (ABR', ZBR, rng3) \<Rightarrow>
          Inr (Merge2x2 ATL'
                 (if formATR
                  then Gemm K NORMAL NORMAL 1 (Gemm K ADJOINT NORMAL 1 ZTL ATR) ZBR
                  else ATR)
                 ABL ABR',
               Merge1x2 (Gemm K NORMAL NORMAL 1 QL ZTL) (Gemm K NORMAL NORMAL 1 QR ZBR),
               rng3))))))
   \<and> SDCVectorsDist (Suc fuel) split K A Q formATR cutoff rng =
     (case split A Q rng of
        Inl e \<Rightarrow> Inl e
      | Inr (A1, Q1, part, rng1) \<Rightarrow>
     (case PartitionDownDiagonal A1 (index part) of
        Inl e \<Rightarrow> Inl e
      | Inr (ATL, ATR, ABL, ABR) \<Rightarrow>
     (case PartitionRight Q1 (index part) of
        Inl e \<Rightarrow> Inl e
      | Inr (QL, QR) \<Rightarrow>
     (case SDCVectorsDist fuel split K ATL EmptyMatrix formATR cutoff rng1 of
        Inl e \<Rightarrow> Inl e
      | Inr (ATL', ZTL, rng2) \<Rightarrow>
     (case SDCVectorsDist fuel split K ABR EmptyMatrix formATR cutoff rng2 of
        Inl e \<Rightarrow> Inl e
      | Inr (ABR', ZBR, rng3) \<Rightarrow>
          Inr (Merge2x2 ATL'
                 (if formATR
                  then Gemm K NORMAL NORMAL 1 (Gemm K ADJOINT NORMAL 1 ZTL ATR) ZBR
                  else ATR)
                 ABL ABR',
               Merge1x2 (Gemm K NORMAL NORMAL 1 QL ZTL) (Gemm K NORMAL NORMAL 1 QR ZBR),
               rng3))))))"
  using assms
  by (simp add: Let_def split: sum.splits prod.splits)


lemma exchange_attempt_general:
  assumes "stA st = M" "ComputePartition (FlipCols (FlipRows M)) = Inr p"
  shows "RSDAttempt exchangeKernels Sequential returnQ n oneA S st
   = Inr (st\<lparr>stA := FlipCols (FlipRows M),
             stG := (if returnQ then ExchangeMatrix (Height S) else FlipCols S),
             stV := M,
             stB := (if returnQ then FlipRows M else stB st),
             stT := EmptyMatrix,
             stRng := Suc (stRng st),
             stPart := Some (p\<lparr>value := DivideBy (value p) oneA\<rparr>)\<rparr>,
          p\<lparr>value := DivideBy (value p) oneA\<rparr>)"
  using assms
  by (simp add: RSDAttempt_def exchangeKernels_def Let_def ComputePartitionOf_def FlipCols_def)

lemma exchange_loop_exhausts:
  assumes "stA st = M" "ComputePartition (FlipCols (FlipRows M)) = Inr p"
    and "\<not> AtMost (DivideBy (value p) oneA) tol" "int it < maxIts"
  shows "RSDLoop exchangeKernels Sequential returnQ n oneA S tol maxIts it st
     = Inr (st\<lparr>stA := FlipCols (FlipRows M),
             stG := (if returnQ then ExchangeMatrix (Height S) else FlipCols S),
             stV := M,
             stB := (if returnQ then FlipRows M else stB st),
             stT := EmptyMatrix,
             stRng := stRng st + nat (maxIts - int it),
             stPart := Some (p\<lparr>value := DivideBy (value p) oneA\<rparr>)\<rparr>)"
  using assms
proof (induction "nat (maxIts - int it)" arbitrary: it st rule: less_induct)
  case less
  let ?p = "p\<lparr>value := DivideBy (value p) oneA\<rparr>"
  let ?st' = "st\<lparr>stA := FlipCols (FlipRows M),
             stG := (if returnQ then ExchangeMatrix (Height S) else FlipCols S),
             stV := M,
             stB := (if returnQ then FlipRows M else stB st),
             stT := EmptyMatrix,
             stRng := Suc (stRng st),
             stPart := Some ?p\<rparr>"
  have att: "RSDAttempt exchangeKernels Sequential returnQ n oneA S st = Inr (?st', ?p)"
    by (rule exchange_attempt_general [OF less.prems(1,2)])
  note unroll = RSDLoop.simps [of exchangeKernels Sequential returnQ n oneA S tol maxIts it st]
  show ?case
  proof (cases "int it = maxIts - 1")
    case True
    then have "nat (maxIts - int it) = 1" by simp
    then show ?thesis using unroll att True less.prems(4) by simp
  next
    case False
    have lt: "int (Suc it) < maxIts" using False less.prems(4) by simp
    have dec: "nat (maxIts - int (Suc it)) < nat (maxIts - int it)" using lt by simp
    have A: "stA (?st'\<lparr>stA := stV ?st'\<rparr>) = M" by simp
    have cnt: "Suc (stRng st) + nat (maxIts - int (Suc it)) = stRng st + nat (maxIts - int it)"
      using lt by simp
    have "RSDLoop exchangeKernels Sequential returnQ n oneA S tol maxIts it st
            = RSDLoop exchangeKernels Sequential returnQ n oneA S tol maxIts (Suc it) (?st'\<lparr>stA := stV ?st'\<rparr>)"
      using unroll att False less.prems(3,4) by simp
    also have "\<dots> = Inr (st\<lparr>stA := FlipCols (FlipRows M),
             stG := (if returnQ then ExchangeMatrix (Height S) else FlipCols S),
             stV := M,
             stB := (if returnQ then FlipRows M else stB st),
             stT := EmptyMatrix,
             stRng := stRng st + nat (maxIts - int it),
             stPart := Some ?p\<rparr>)"
      using less.hyps [OF dec A less.prems(2,3) lt] cnt by simp
    finally show ?thesis .
  qed
qed

lemma exchange_call_exhausts:
  assumes "ComputePartition (FlipCols (FlipRows M)) = Inr p"
    and "\<not> AtMost (DivideBy (value p) (OneNormOf M)) (RSDTolerance exchangeKernels M 0)"
  shows "RandomizedSignDivide exchangeKernels Sequential M G returnQ 10 0 rng
     = Inr (FlipCols (FlipRows M),
            (if returnQ then ExchangeMatrix (Height G) else FlipCols (RSDProjector exchangeKernels G)),
            p\<lparr>value := DivideBy (value p) (OneNormOf M)\<rparr>, rng + 10)"
proof -
  have one: "OneNorm exchangeKernels M = OneNormOf M" by (simp add: exchangeKernels_def)
  have hS: "Height (RSDProjector exchangeKernels G) = Height G"
    by (simp add: RSDProjector_def exchangeKernels_def Scale_def UpdateDiagonal_def)
  have A0: "stA (RSDInitial M G rng) = M" by (simp add: RSDInitial_def)
  have "RSDLoop exchangeKernels Sequential returnQ (Height M) (OneNormOf M) (RSDProjector exchangeKernels G)
          (RSDTolerance exchangeKernels M 0) 10 0 (RSDInitial M G rng)
        = Inr ((RSDInitial M G rng)\<lparr>stA := FlipCols (FlipRows M),
             stG := (if returnQ then ExchangeMatrix (Height (RSDProjector exchangeKernels G))
                     else FlipCols (RSDProjector exchangeKernels G)),
             stV := M,
             stB := (if returnQ then FlipRows M else stB (RSDInitial M G rng)),
             stT := EmptyMatrix,
             stRng := stRng (RSDInitial M G rng) + nat (10 - int 0),
             stPart := Some (p\<lparr>value := DivideBy (value p) (OneNormOf M)\<rparr>)\<rparr>)"
    by (rule exchange_loop_exhausts [OF A0 assms(1) assms(2)]) simp
  then show ?thesis
    by (simp add: RandomizedSignDivide_unfold one hS) (simp add: RSDInitial_def)
qed

lemma SpectralDivide_unfold:
  "SpectralDivide K ovl A rng =
     (case SampleBall K (- (Trace K A / real (Height A)))
             (0.001 * InfinityNorm K (SetDiagonalConst A 0)) rng of
        (shift, rng1) \<Rightarrow>
          (case RandomizedSignDivide K ovl A (UpdateDiagonal A shift) False 10 0 rng1 of
             Inl e \<Rightarrow> Inl e
           | Inr (A', G', part, rng') \<Rightarrow> Inr (A', part, rng')))"
  by (simp add: SpectralDivide_def Let_def SetDiagonal_restores split: prod.splits)

lemma zero2_partition: "ComputePartition zero2 = Inr \<lparr>value = Finite 0, index = 1\<rparr>"
  by code_simp

lemma zero2_flip: "FlipCols (FlipRows zero2) = zero2"
  by (simp add: FlipCols_def FlipRows_def zero2_def)

lemma zero2_OneNorm: "OneNormOf zero2 = 0"
  by code_simp

lemma zero2_offdiagonal: "InfinityNormOf (SetDiagonalConst zero2 0) = 0"
  by code_simp

lemma exchange_SpectralDivide_zero2:
  "SpectralDivide exchangeKernels Sequential zero2 0
     = Inr (zero2, \<lparr>value = NotFinite, index = 1\<rparr>, 11)"
proof -
  have "RandomizedSignDivide exchangeKernels Sequential zero2 G False 10 0 (Suc 0)
     = Inr (zero2, FlipCols (RSDProjector exchangeKernels G), \<lparr>value = NotFinite, index = 1\<rparr>, 11)" for G
    using exchange_call_exhausts [of zero2 "\<lparr>value = Finite 0, index = 1\<rparr>" G False "Suc 0"]
    by (simp add: zero2_flip zero2_partition zero2_OneNorm)
  then show ?thesis
    by (simp add: SpectralDivide_unfold exchangeKernels_def)
qed


lemma DivideBy_zero: "DivideBy x 0 = NotFinite"
  by (cases x) simp_all

lemma RSDAttempt_division_by_zero:
  assumes "RSDAttempt K ovl returnQ n 0 S st = Inr (st', part)"
  shows "value part = NotFinite"
  using assms
  by (auto simp: RSDAttempt_def Let_def DivideBy_zero split: prod.splits sum.splits if_splits)

lemma RSDAttemptNo_division_by_zero:
  assumes "RSDAttemptNo K ovl A G returnQ rng k = Inr (s, part)" "OneNorm K A = 0"
  shows "value part = NotFinite"
  using assms
  by (auto simp: RSDAttemptNo_def RSDNth_def split: sum.splits dest: RSDAttempt_division_by_zero)

text \<open>
  C9, as the code has it. \<^verbatim>\<open>SpectralDivide\<close> has no early return. When the
  off-diagonal infinity norm is 0, the shift is drawn from a ball of radius 0 and
  \<^verbatim>\<open>RandomizedSignDivide\<close> runs as for any other matrix: the value returned is the
  one found by the last attempt that was made, attempt number \<open>k < 10\<close>, every attempt
  before it having been rejected. When moreover the 1-norm of \<^verbatim>\<open>A\<close> is 0 (the zero
  matrix), the value is the result of a division by zero and all ten attempts are made.
\<close>

theorem SpectralDivide_zero_offdiagonal:
  assumes "InfinityNorm K (SetDiagonalConst A 0) = 0"
  shows "SpectralDivide K ovl A rng =
     (case SampleBall K (- (Trace K A / real (Height A))) 0 rng of
        (shift, rng1) \<Rightarrow>
          (case RandomizedSignDivide K ovl A (UpdateDiagonal A shift) False 10 0 rng1 of
             Inl e \<Rightarrow> Inl e
           | Inr (A', G', part, rng') \<Rightarrow> Inr (A', part, rng')))
   \<and> (\<forall>A' part rng'. SpectralDivide K ovl A rng = Inr (A', part, rng') \<longrightarrow>
        (\<exists>G rng1 k s. int k < 10
           \<and> RSDAttemptNo K ovl A G False rng1 k = Inr (s, part) \<and> A' = stA s \<and> rng' = stRng s
           \<and> (\<forall>j<k. case RSDAttemptNo K ovl A G False rng1 j of
                       Inl e \<Rightarrow> False
                     | Inr (s, p) \<Rightarrow> \<not> AtMost (value p) (RSDTolerance K A 0))
           \<and> (AtMost (value part) (RSDTolerance K A 0) \<or> k = 9)
           \<and> (OneNorm K A = 0 \<longrightarrow> value part = NotFinite \<and> k = 9)))"
proof (intro conjI allI impI)
  show "SpectralDivide K ovl A rng =
     (case SampleBall K (- (Trace K A / real (Height A))) 0 rng of
        (shift, rng1) \<Rightarrow>
          (case RandomizedSignDivide K ovl A (UpdateDiagonal A shift) False 10 0 rng1 of
             Inl e \<Rightarrow> Inl e
           | Inr (A', G', part, rng') \<Rightarrow> Inr (A', part, rng')))"
    using assms by (simp add: SpectralDivide_unfold)
next
  fix A' part rng'
  assume r: "SpectralDivide K ovl A rng = Inr (A', part, rng')"
  then obtain G rng1 G' where call: "RandomizedSignDivide K ovl A G False 10 0 rng1 = Inr (A', G', part, rng')"
    by (auto simp: SpectralDivide_unfold split: prod.splits sum.splits)
  have "(1::int) \<le> 10" by simp
  from RandomizedSignDivide_last_attempt [OF this, where K = K and ovl = ovl and A = A and G = G
      and returnQ = False and rng = rng1 and relTol = 0]
  obtain k where k: "int k < 10"
    "\<forall>j<k. case RSDAttemptNo K ovl A G False rng1 j of
              Inl e \<Rightarrow> False
            | Inr (s, part) \<Rightarrow> \<not> AtMost (value part) (RSDTolerance K A 0)"
    "case RSDAttemptNo K ovl A G False rng1 k of
       Inl e \<Rightarrow> RandomizedSignDivide K ovl A G False 10 0 rng1 = Inl e
     | Inr (s, part) \<Rightarrow>
         RandomizedSignDivide K ovl A G False 10 0 rng1 = Inr (stA s, stG s, part, stRng s)
         \<and> (AtMost (value part) (RSDTolerance K A 0) \<or> int k = 10 - 1)"
    by blast
  from k(3) call obtain s where s: "RSDAttemptNo K ovl A G False rng1 k = Inr (s, part)"
    "A' = stA s" "rng' = stRng s" "AtMost (value part) (RSDTolerance K A 0) \<or> k = 9"
    by (auto split: sum.splits prod.splits)
  have z: "OneNorm K A = 0 \<longrightarrow> value part = NotFinite \<and> k = 9"
  proof
    assume "OneNorm K A = 0"
    then have "value part = NotFinite" using s(1) by (rule RSDAttemptNo_division_by_zero [rotated])
    then show "value part = NotFinite \<and> k = 9" using s(4) by simp
  qed
  show "\<exists>G rng1 k s. int k < 10
           \<and> RSDAttemptNo K ovl A G False rng1 k = Inr (s, part) \<and> A' = stA s \<and> rng' = stRng s
           \<and> (\<forall>j<k. case RSDAttemptNo K ovl A G False rng1 j of
                       Inl e \<Rightarrow> False
                     | Inr (s, p) \<Rightarrow> \<not> AtMost (value p) (RSDTolerance K A 0))
           \<and> (AtMost (value part) (RSDTolerance K A 0) \<or> k = 9)
           \<and> (OneNorm K A = 0 \<longrightarrow> value part = NotFinite \<and> k = 9)"
    using k(1,2) s z by blast
qed

text \<open>
  C9 as stated fails on the \<open>2 \<times> 2\<close> zero matrix, whose off-diagonal part is zero: the
  transformed matrix is the zero matrix again, its partition value 0 is divided by the
  1-norm 0, no attempt is within the tolerance, and the function returns after ten
  attempts (the generator has made its eleven draws) with a value that is not finite.
\<close>

theorem SpectralDivide_zero_matrix_counterexample:
  "InfinityNorm exchangeKernels (SetDiagonalConst zero2 0) = 0
   \<and> SpectralDivide exchangeKernels Sequential zero2 0
       = Inr (zero2, \<lparr>value = NotFinite, index = 1\<rparr>, 11)"
  using exchange_SpectralDivide_zero2 zero2_offdiagonal by (simp add: exchangeKernels_def)

theorem SpectralDivide_zero_offdiagonal_witness:
  "\<exists>G rng1 s. RSDAttemptNo exchangeKernels Sequential zero2 G False rng1 9
                 = Inr (s, \<lparr>value = NotFinite, index = 1\<rparr>)"
proof -
  have h: "InfinityNorm exchangeKernels (SetDiagonalConst zero2 0) = 0"
    using zero2_offdiagonal by (simp add: exchangeKernels_def)
  have one: "OneNorm exchangeKernels zero2 = 0"
    using zero2_OneNorm by (simp add: exchangeKernels_def)
  from SpectralDivide_zero_offdiagonal [OF h, of Sequential 0] exchange_SpectralDivide_zero2 one
  show ?thesis by blast
qed



lemma View_Height: "Height (View M i j h w) = h"
  by (simp add: View_def)

lemma View_Width: "Width (View M i j h w) = w"
  by (simp add: View_def)



theorem SDCVectors_stitch_witness:
  "SDCVectors (Suc (Suc 0)) (SpectralDivideQ exchangeKernels Sequential) exchangeKernels upper2 EmptyMatrix True 1 0
     = Inr (Merge2x2 (View lower2 0 0 1 1)
              (Gemm exchangeKernels NORMAL NORMAL 1
                 (Gemm exchangeKernels ADJOINT NORMAL 1 (ExchangeMatrix 1) (View lower2 0 1 1 1))
                 (ExchangeMatrix 1))
              (View lower2 1 0 1 1) (View lower2 1 1 1 1),
            Merge1x2 (Gemm exchangeKernels NORMAL NORMAL 1 (View (ExchangeMatrix 2) 0 0 2 1) (ExchangeMatrix 1))
              (Gemm exchangeKernels NORMAL NORMAL 1 (View (ExchangeMatrix 2) 0 1 2 1) (ExchangeMatrix 1)),
            11)"
proof -
  have h: "\<not> int (Height upper2) \<le> 1" by (simp add: upper2_Height)
  have p: "PartitionDownDiagonal lower2 1
             = Inr (View lower2 0 0 1 1, View lower2 0 1 1 1, View lower2 1 0 1 1, View lower2 1 1 1 1)"
    by (simp add: PartitionDownDiagonal_def lower2_def upper2_def FromRows_def FlipCols_def FlipRows_def)
  have q: "PartitionRight (ExchangeMatrix 2) 1
             = Inr (View (ExchangeMatrix 2) 0 0 2 1, View (ExchangeMatrix 2) 0 1 2 1)"
    by (simp add: PartitionRight_def ExchangeMatrix_def)
  have b: "SDCVectors (Suc 0) split exchangeKernels M Q True 1 g
             = Inr (M, ExchangeMatrix (Height M), g)" if "Height M \<le> 1" for split M Q g
    using that by (simp add: exchangeKernels_def)
  note T = SDCVectors_stitch [OF h, of "Suc 0" "SpectralDivideQ exchangeKernels Sequential" exchangeKernels
      EmptyMatrix True 0, THEN conjunct1]
  show ?thesis
    by (subst T) (simp add: exchange_SpectralDivideQ p q b View_Height del: SDCVectors.simps)
qed

end
